theory Spec2Isabelle
  imports Main "HOL-Library.AList" "HOL-Library.Sublist"
begin

section \<open>JavaScript values and strings\<close>

text \<open>
  A row that the \<^verbatim>\<open>pg\<close> driver hands to the writers is a JavaScript object whose
  properties hold strings (\<^verbatim>\<open>id\<close>, \<^verbatim>\<open>name\<close>, \<^verbatim>\<open>value\<close>), a \<^verbatim>\<open>Date\<close>
  (\<^verbatim>\<open>created_at\<close>) and a parsed JSON tree (\<^verbatim>\<open>metadata\<close>). \<open>jsval\<close> is that value
  tree. Modelling choices:
  \<^item> a string is a list of code units, one \<open>char\<close> each (code units above 255 are not
    represented);
  \<^item> a number is an integer, printed in plain decimal; the integers that are JavaScript
    numbers exactly, and that JavaScript prints so, are the safe integers (up to
    \<open>2^53 - 1\<close> in magnitude); fractions, exponents and non-finite numbers are not
    modelled;
  \<^item> a \<open>Date\<close> carries the text that \<^verbatim>\<open>toISOString\<close> gives for it;
  \<^item> an object is the list of its own enumerable string-keyed properties in the order
    \<^verbatim>\<open>Object.entries\<close> lists them; reading a property that is absent gives
    \<open>Undefined\<close>. The prototype of an object and what it inherits from it are not
    represented.
\<close>

datatype jsval =
    Undefined
  | Null
  | Bool bool
  | Num int
  | Str string
  | Date string
  | Arr "jsval list"
  | Obj "(string \<times> jsval) list"

type_synonym row = "(string \<times> jsval) list"

text \<open>\<^verbatim>\<open>obj[key]\<close> on a plain object.\<close>

definition get_prop :: "(string \<times> jsval) list \<Rightarrow> string \<Rightarrow> jsval" where
  "get_prop obj k = (case map_of obj k of None \<Rightarrow> Undefined | Some v \<Rightarrow> v)"

text \<open>
  \<^verbatim>\<open>obj[key] = v\<close> on an object created by \<^verbatim>\<open>{}\<close>: an existing property keeps its place
  and takes the new value, a new one is added after the others. The name \<^verbatim>\<open>__proto__\<close>
  is the accessor of the prototype: assigning to it creates no property.
\<close>

definition obj_set :: "string \<Rightarrow> 'v \<Rightarrow> (string \<times> 'v) list \<Rightarrow> (string \<times> 'v) list" where
  "obj_set k v obj = (if k = ''__proto__'' then obj else AList.update k v obj)"

definition code :: "char \<Rightarrow> nat" where
  "code c = of_char c"

definition is_digit :: "char \<Rightarrow> bool" where
  "is_digit c = (48 \<le> code c \<and> code c \<le> 57)"

definition is_upper :: "char \<Rightarrow> bool" where
  "is_upper c = (65 \<le> code c \<and> code c \<le> 90)"

definition is_lower :: "char \<Rightarrow> bool" where
  "is_lower c = (97 \<le> code c \<and> code c \<le> 122)"

text \<open>
  An object lists the properties whose names are array indices (canonical decimal
  numerals below \<open>2^32 - 1\<close>) first, in ascending numeric order, and the others after
  them in the order they were created.
\<close>

fun digits_val :: "nat \<Rightarrow> string \<Rightarrow> nat" where
  "digits_val acc [] = acc"
| "digits_val acc (c # cs) = digits_val (10 * acc + (code c - 48)) cs"

definition array_index :: "string \<Rightarrow> nat option" where
  "array_index k =
     (if k = [] \<or> \<not> list_all is_digit k then None
      else if hd k = CHR ''0'' \<and> tl k \<noteq> [] then None
      else if digits_val 0 k < 4294967295 then Some (digits_val 0 k) else None)"

definition own_entries :: "(string \<times> 'v) list \<Rightarrow> (string \<times> 'v) list" where
  "own_entries obj =
     sort_key (\<lambda>(k, v). the (array_index k)) (filter (\<lambda>(k, v). array_index k \<noteq> None) obj)
     @ filter (\<lambda>(k, v). array_index k = None) obj"

text \<open>\<^verbatim>\<open>s.replace(/c/g, r)\<close> for a one-character pattern \<open>c\<close>.\<close>

definition replace_char :: "char \<Rightarrow> string \<Rightarrow> string \<Rightarrow> string" where
  "replace_char c r s = concat (map (\<lambda>x. if x = c then r else [x]) s)"

text \<open>\<^verbatim>\<open>String(n)\<close> for an integer.\<close>

definition digit_char :: "nat \<Rightarrow> char" where
  "digit_char d = ''0123456789'' ! d"

fun show_nat :: "nat \<Rightarrow> string" where
  "show_nat n = (if n < 10 then [digit_char n] else show_nat (n div 10) @ [digit_char (n mod 10)])"

declare show_nat.simps [simp del]

definition show_int :: "int \<Rightarrow> string" where
  "show_int i = (if i < 0 then CHR ''-'' # show_nat (nat (- i)) else show_nat (nat i))"

section \<open>The job store (jobs.js)\<close>

record column =
  source :: string
  target :: string

record job =
  exportId :: string
  format :: string
  columns :: "column list"
  compression :: "string option"
  status :: string
  createdAt :: nat

type_synonym store = "string \<rightharpoonup> job"

text \<open>
  \<^verbatim>\<open>createJob\<close>: the fresh identifier (\<^verbatim>\<open>uuidv4()\<close>) and the clock are inputs;
  \<^verbatim>\<open>compression || null\<close> turns an absent or empty compression into \<^verbatim>\<open>null\<close>.
\<close>

definition createJob :: "string \<Rightarrow> nat \<Rightarrow> string \<Rightarrow> column list \<Rightarrow> string option \<Rightarrow> store \<Rightarrow> job \<times> store" where
  "createJob uuid now fmt cols cmpr st =
     (let j = \<lparr> exportId = uuid, format = fmt, columns = cols,
                compression = (case cmpr of None \<Rightarrow> None | Some c \<Rightarrow> if c = [] then None else Some c),
                status = ''pending'', createdAt = now \<rparr>
      in (j, st(uuid \<mapsto> j)))"

definition getJob :: "store \<Rightarrow> string \<Rightarrow> job option" where
  "getJob st i = st i"

definition updateJobStatus :: "string \<Rightarrow> string \<Rightarrow> store \<Rightarrow> store" where
  "updateJobStatus i s st = (case st i of None \<Rightarrow> st | Some j \<Rightarrow> st(i \<mapsto> j\<lparr>status := s\<rparr>))"

section \<open>The columnar schema (parquetWriter.js)\<close>

datatype parquet_type = INT64 | DOUBLE | TIMESTAMP_MILLIS | UTF8

definition getParquetFieldType :: "string \<Rightarrow> parquet_type" where
  "getParquetFieldType src =
     (if src = ''id'' then INT64
      else if src = ''value'' then DOUBLE
      else if src = ''created_at'' then TIMESTAMP_MILLIS
      else if src = ''metadata'' then UTF8
      else UTF8)"

text \<open>
  \<^verbatim>\<open>buildSchema\<close> fills the object \<^verbatim>\<open>fields\<close>, one assignment
  \<^verbatim>\<open>fields[col.target] = getParquetFieldType(col.source)\<close> per column in order, and hands
  it to the library's schema constructor, which goes through the properties in the
  order the object enumerates them. The schema is the list of the fields in that
  order. What the constructor does with a prototype that an output name \<^verbatim>\<open>__proto__\<close>
  has set is the library's and is not represented.
\<close>

definition buildSchema :: "column list \<Rightarrow> (string \<times> parquet_type) list" where
  "buildSchema cols =
     own_entries (fold (\<lambda>col fields. obj_set (target col) (getParquetFieldType (source col)) fields) cols [])"

section \<open>The markup-tree encoder's elements (xmlWriter.js)\<close>

text \<open>The character class \<^verbatim>\<open>[a-zA-Z0-9_\-\.]\<close>.\<close>

definition name_char :: "char \<Rightarrow> bool" where
  "name_char c = (is_lower c \<or> is_upper c \<or> is_digit c \<or> c = CHR ''_'' \<or> c = CHR ''-'' \<or> c = CHR ''.'')"

text \<open>\<^verbatim>\<open>.replace(/[^a-zA-Z0-9_\-\.]/g, '_')\<close>\<close>

definition replace_non_name :: "string \<Rightarrow> string" where
  "replace_non_name s = map (\<lambda>c. if name_char c then c else CHR ''_'') s"

text \<open>\<^verbatim>\<open>.replace(/^(\d)/, '_$1')\<close>\<close>

definition prefix_leading_digit :: "string \<Rightarrow> string" where
  "prefix_leading_digit s = (case s of [] \<Rightarrow> [] | c # cs \<Rightarrow> if is_digit c then CHR ''_'' # c # cs else c # cs)"

definition safe_tag :: "string \<Rightarrow> string" where
  "safe_tag tagName = prefix_leading_digit (replace_non_name tagName)"

text \<open>The five replacements on the text of a scalar, one pass after the other.\<close>

definition escape_xml :: "string \<Rightarrow> string" where
  "escape_xml s =
     replace_char (CHR 0x27) ''&apos;''
       (replace_char (CHR 0x22) ''&quot;''
         (replace_char (CHR ''>'') ''&gt;''
           (replace_char (CHR ''<'') ''&lt;''
             (replace_char (CHR ''&'') ''&amp;'' s))))"

text \<open>
  \<^verbatim>\<open>valueToXml\<close>. The cases follow the source's order: \<^verbatim>\<open>null\<close> and \<^verbatim>\<open>undefined\<close>,
  arrays, other objects (a \<^verbatim>\<open>Date\<close> is an object with no enumerable property of its
  own), and scalars through \<^verbatim>\<open>String(value)\<close>.
\<close>

fun valueToXml :: "string \<Rightarrow> jsval \<Rightarrow> string" where
  "valueToXml tagName Undefined = ''<'' @ safe_tag tagName @ ''/>''"
| "valueToXml tagName Null = ''<'' @ safe_tag tagName @ ''/>''"
| "valueToXml tagName (Arr vs) =
     ''<'' @ safe_tag tagName @ ''>'' @ concat (map (valueToXml ''item'') vs) @ ''</'' @ safe_tag tagName @ ''>''"
| "valueToXml tagName (Obj kvs) =
     ''<'' @ safe_tag tagName @ ''>'' @ concat (map (\<lambda>(k, v). valueToXml k v) kvs) @ ''</'' @ safe_tag tagName @ ''>''"
| "valueToXml tagName (Date d) = ''<'' @ safe_tag tagName @ ''>'' @ ''</'' @ safe_tag tagName @ ''>''"
| "valueToXml tagName (Bool b) =
     ''<'' @ safe_tag tagName @ ''>'' @ escape_xml (if b then ''true'' else ''false'') @ ''</'' @ safe_tag tagName @ ''>''"
| "valueToXml tagName (Num n) =
     ''<'' @ safe_tag tagName @ ''>'' @ escape_xml (show_int n) @ ''</'' @ safe_tag tagName @ ''>''"
| "valueToXml tagName (Str s) =
     ''<'' @ safe_tag tagName @ ''>'' @ escape_xml s @ ''</'' @ safe_tag tagName @ ''>''"

section \<open>The batch source (db.js)\<close>

text \<open>
  The pool and the cursor belong to the \<^verbatim>\<open>pg\<close> and \<^verbatim>\<open>pg-cursor\<close> libraries. What they
  do is an input of the model: whether \<^verbatim>\<open>pool.connect()\<close> rejects, what each successive
  \<^verbatim>\<open>cursor.read(size)\<close> gives (rows, or a rejection), and whether \<^verbatim>\<open>cursor.close()\<close>
  rejects. Once the script of reads is used up the cursor is exhausted and reads
  give no rows.
\<close>

datatype read_result = Rows "row list" | ReadFails string

record database =
  connect_error :: "string option"
  reads :: "read_result list"
  close_error :: "string option"

text \<open>The calls that \<open>streamRows\<close> makes on the pool, the client and the cursor.\<close>

datatype db_event = Connect | OpenCursor | Read nat | CloseCursor | Release

text \<open>
  An async generator is suspended at its start, suspended at its \<^verbatim>\<open>yield\<close>, or
  completed.
\<close>

datatype gen_phase = NotStarted | AtYield | Finished

record generator =
  phase :: gen_phase
  db :: database
  sql :: string
  fetch_size :: nat
  events :: "db_event list"

datatype 'a step = Yield 'a | Return | Throw string

text \<open>
  \<^verbatim>\<open>batchSize || parseInt(process.env.DB_CURSOR_BATCH_SIZE, 10) || 500\<close>: an absent
  argument, an unparsable variable and zero all fall through.
\<close>

definition cursor_size :: "nat option \<Rightarrow> nat option \<Rightarrow> nat" where
  "cursor_size batchSize env_size =
     (case batchSize of
        Some n \<Rightarrow> if n \<noteq> 0 then n else (case env_size of Some m \<Rightarrow> if m \<noteq> 0 then m else 500 | None \<Rightarrow> 500)
      | None \<Rightarrow> (case env_size of Some m \<Rightarrow> if m \<noteq> 0 then m else 500 | None \<Rightarrow> 500))"

text \<open>Calling \<open>streamRows\<close> only creates the generator; its body has not run yet.\<close>

definition streamRows :: "database \<Rightarrow> string \<Rightarrow> nat option \<Rightarrow> nat option \<Rightarrow> generator" where
  "streamRows d query batchSize env_size =
     \<lparr> phase = NotStarted, db = d, sql = query, fetch_size = cursor_size batchSize env_size, events = [] \<rparr>"

definition log_db :: "db_event list \<Rightarrow> generator \<Rightarrow> generator" where
  "log_db es g = g\<lparr>events := events g @ es\<rparr>"

text \<open>
  After the loop: \<^verbatim>\<open>await cursor.close()\<close>, then the \<^verbatim>\<open>finally\<close> block releases the
  client, whether the close succeeded or rejected.
\<close>

definition finish_reading :: "generator \<Rightarrow> row list step \<times> generator" where
  "finish_reading g =
     (let g1 = log_db [CloseCursor] g in
      case close_error (db g1) of
        Some e \<Rightarrow> (Throw e, (log_db [Release] g1)\<lparr>phase := Finished\<rparr>)
      | None \<Rightarrow> (Return, (log_db [Release] g1)\<lparr>phase := Finished\<rparr>))"

text \<open>
  One turn of the \<^verbatim>\<open>while (true)\<close> loop: a read that rejects leaves the \<^verbatim>\<open>try\<close> block
  through \<^verbatim>\<open>finally\<close> (the client is released; \<^verbatim>\<open>cursor.close()\<close> is not reached), an
  empty read breaks out of the loop, any other read is yielded.
\<close>

definition read_once :: "generator \<Rightarrow> row list step \<times> generator" where
  "read_once g =
     (let g1 = log_db [Read (fetch_size g)] g in
      case reads (db g1) of
        [] \<Rightarrow> finish_reading g1
      | ReadFails e # rest \<Rightarrow>
          (Throw e, (log_db [Release] g1)\<lparr>phase := Finished, db := (db g1)\<lparr>reads := rest\<rparr>\<rparr>)
      | Rows rows # rest \<Rightarrow>
          if rows = [] then finish_reading (g1\<lparr>db := (db g1)\<lparr>reads := rest\<rparr>\<rparr>)
          else (Yield rows, g1\<lparr>phase := AtYield, db := (db g1)\<lparr>reads := rest\<rparr>\<rparr>))"

text \<open>
  \<^verbatim>\<open>next()\<close>. The first call runs \<^verbatim>\<open>await pool.connect()\<close>, which is outside the
  \<^verbatim>\<open>try\<close> block, and opens the cursor.
\<close>

definition gen_next :: "generator \<Rightarrow> row list step \<times> generator" where
  "gen_next g =
     (case phase g of
        Finished \<Rightarrow> (Return, g)
      | AtYield \<Rightarrow> read_once g
      | NotStarted \<Rightarrow>
          (case connect_error (db g) of
             Some e \<Rightarrow> (Throw e, g\<lparr>phase := Finished\<rparr>)
           | None \<Rightarrow> read_once (log_db [Connect, OpenCursor] g)))"

text \<open>
  \<^verbatim>\<open>return()\<close>, which a \<^verbatim>\<open>for await\<close> loop calls when its body is left early: a
  generator suspended at its \<^verbatim>\<open>yield\<close> runs the \<^verbatim>\<open>finally\<close> block and completes.
\<close>

definition gen_return :: "generator \<Rightarrow> generator" where
  "gen_return g =
     (case phase g of
        AtYield \<Rightarrow> (log_db [Release] g)\<lparr>phase := Finished\<rparr>
      | NotStarted \<Rightarrow> g\<lparr>phase := Finished\<rparr>
      | Finished \<Rightarrow> g)"

lemma gen_next_Yield_shorter:
  "gen_next g = (Yield b, g') \<Longrightarrow> length (reads (db g')) < length (reads (db g))"
  by (auto simp add: gen_next_def read_once_def finish_reading_def log_db_def Let_def
      split: gen_phase.splits option.splits list.splits read_result.splits if_splits)

text \<open>
  \<^verbatim>\<open>for await (const batch of rowGenerator) { body }\<close>, with the state \<open>s\<close> that the body
  updates. The body gives the state it reached and the error it threw, if any; a body
  that throws makes the loop call \<^verbatim>\<open>return()\<close> on the generator before the error
  propagates.
\<close>

function for_await :: "('s \<Rightarrow> row list \<Rightarrow> string option \<times> 's) \<Rightarrow> generator \<Rightarrow> 's \<Rightarrow> string option \<times> 's \<times> generator" where
  "for_await body g s =
     (case gen_next g of
        (Return, g') \<Rightarrow> (None, s, g')
      | (Throw e, g') \<Rightarrow> (Some e, s, g')
      | (Yield batch, g') \<Rightarrow>
          (case body s batch of
             (Some e, s') \<Rightarrow> (Some e, s', gen_return g')
           | (None, s') \<Rightarrow> for_await body g' s'))"
  by pat_completeness auto
termination
  by (relation "measure (\<lambda>(body, g, s). length (reads (db g)))") (auto dest: gen_next_Yield_shorter [OF sym])

declare for_await.simps [simp del]

text \<open>
  The reads of a cursor over a result set of \<open>rows\<close>, \<open>n\<close> rows at a time.
\<close>

function batches :: "nat \<Rightarrow> 'a list \<Rightarrow> 'a list list" where
  "batches n xs = (if n = 0 \<or> xs = [] then [] else take n xs # batches n (drop n xs))"
  by pat_completeness auto
termination
  by (relation "measure (\<lambda>(n, xs). length xs)") auto

declare batches.simps [simp del]

section \<open>Streams, the response and \<^verbatim>\<open>JSON.stringify\<close>\<close>

definition nl :: string where
  "nl = [CHR 0x0A]"

definition dq :: string where
  "dq = [CHR 0x22]"

text \<open>\<^verbatim>\<open>xs.join(sep)\<close>\<close>

definition join :: "string \<Rightarrow> string list \<Rightarrow> string" where
  "join sep xs = (case xs of [] \<Rightarrow> [] | y # ys \<Rightarrow> y @ concat (map (\<lambda>x. sep @ x) ys))"

definition hex_char :: "nat \<Rightarrow> char" where
  "hex_char d = ''0123456789abcdef'' ! d"

text \<open>
  How \<^verbatim>\<open>JSON.stringify\<close> writes one code unit of a string: the quote and the backslash
  are escaped, control characters take their short escape or \<^verbatim>\<open>\u00xx\<close>.
\<close>

definition json_escape :: "char \<Rightarrow> string" where
  "json_escape c =
     (if c = CHR 0x22 then [CHR 0x5C, CHR 0x22]
      else if c = CHR 0x5C then [CHR 0x5C, CHR 0x5C]
      else if c = CHR 0x08 then [CHR 0x5C, CHR ''b'']
      else if c = CHR 0x0C then [CHR 0x5C, CHR ''f'']
      else if c = CHR 0x0A then [CHR 0x5C, CHR ''n'']
      else if c = CHR 0x0D then [CHR 0x5C, CHR ''r'']
      else if c = CHR 0x09 then [CHR 0x5C, CHR ''t'']
      else if code c < 32 then
        [CHR 0x5C, CHR ''u'', CHR ''0'', CHR ''0'', hex_char (code c div 16), hex_char (code c mod 16)]
      else [c])"

definition json_quote :: "string \<Rightarrow> string" where
  "json_quote s = CHR 0x22 # concat (map json_escape s) @ [CHR 0x22]"

text \<open>
  \<^verbatim>\<open>JSON.stringify(value)\<close> without indentation. A \<^verbatim>\<open>Date\<close> is written through its
  \<^verbatim>\<open>toJSON\<close>; an \<^verbatim>\<open>undefined\<close> element of an array is written \<^verbatim>\<open>null\<close>; a property
  whose value is \<^verbatim>\<open>undefined\<close> is left out.
\<close>

fun JSON_stringify :: "jsval \<Rightarrow> string" where
  "JSON_stringify Undefined = ''null''"
| "JSON_stringify Null = ''null''"
| "JSON_stringify (Bool b) = (if b then ''true'' else ''false'')"
| "JSON_stringify (Num n) = show_int n"
| "JSON_stringify (Str s) = json_quote s"
| "JSON_stringify (Date d) = json_quote d"
| "JSON_stringify (Arr vs) = ''['' @ join '','' (map JSON_stringify vs) @ '']''"
| "JSON_stringify (Obj kvs) =
     ''{'' @ join '','' (map (\<lambda>(k, v). json_quote k @ '':'' @ JSON_stringify v)
                          (filter (\<lambda>(k, v). v \<noteq> Undefined) kvs)) @ ''}''"

text \<open>
  A writable stream as the encoders use it. \<open>ready\<close> is what the stream will answer to
  the successive calls of \<^verbatim>\<open>write\<close> (\<open>False\<close> is the back-pressure signal; once the list
  is used up the stream answers \<open>True\<close>); \<open>calls\<close> records what the encoder did on the
  stream through the variable it writes to (\<^verbatim>\<open>sink\<close>, \<^verbatim>\<open>csvStringifier\<close>), in order.
  \<open>AwaitDrain\<close> is the point where the encoder is suspended on the promise that the
  stream's next \<^verbatim>\<open>drain\<close> event resolves. The \<^verbatim>\<open>res.end()\<close> of a \<^verbatim>\<open>catch\<close> block is recorded
  on the response, as \<open>writableEnded\<close>.
\<close>

datatype 'c sink_call = Write 'c bool | AwaitDrain | End | Destroy string

record 'c sink =
  ready :: "bool list"
  calls :: "'c sink_call list"

text \<open>
  The encoders' \<^verbatim>\<open>write\<close>: \<^verbatim>\<open>const ok = sink.write(chunk); if (!ok) return new Promise(...
  sink.once('drain', resolve))\<close>, always awaited by the caller.
\<close>

definition sink_write :: "'c \<Rightarrow> 'c sink \<Rightarrow> 'c sink" where
  "sink_write chunk s =
     (case ready s of
        [] \<Rightarrow> s\<lparr>calls := calls s @ [Write chunk True]\<rparr>
      | ok # rest \<Rightarrow>
          s\<lparr>ready := rest,
            calls := calls s @ (if ok then [Write chunk True] else [Write chunk False, AwaitDrain])\<rparr>)"

definition sink_end :: "'c sink \<Rightarrow> 'c sink" where
  "sink_end s = s\<lparr>calls := calls s @ [End]\<rparr>"

definition sink_destroy :: "string \<Rightarrow> 'c sink \<Rightarrow> 'c sink" where
  "sink_destroy e s = s\<lparr>calls := calls s @ [Destroy e]\<rparr>"

fun writes_of :: "'c sink_call list \<Rightarrow> 'c list" where
  "writes_of [] = []"
| "writes_of (Write c ok # cs) = c # writes_of cs"
| "writes_of (AwaitDrain # cs) = writes_of cs"
| "writes_of (End # cs) = writes_of cs"
| "writes_of (Destroy e # cs) = writes_of cs"

text \<open>
  The HTTP response. \<open>json_body\<close> is the object sent by \<^verbatim>\<open>res.status(code).json(obj)\<close>,
  if any.
\<close>

record http =
  statusCode :: nat
  headers :: "(string \<times> string) list"
  headersSent :: bool
  writableEnded :: bool
  json_body :: "(string \<times> string) list option"

definition setHeader :: "string \<Rightarrow> string \<Rightarrow> http \<Rightarrow> http" where
  "setHeader k v h = h\<lparr>headers := obj_set k v (headers h)\<rparr>"

definition res_end :: "http \<Rightarrow> http" where
  "res_end h = h\<lparr>headersSent := True, writableEnded := True\<rparr>"

text \<open>
  \<^verbatim>\<open>res.status(code).json(obj)\<close>: the status is set, then sending throws when the
  headers are already out.
\<close>

definition send_json :: "nat \<Rightarrow> (string \<times> string) list \<Rightarrow> http \<Rightarrow> string option \<times> http" where
  "send_json c obj h =
     (if headersSent h then (Some ''ERR_HTTP_HEADERS_SENT'', h\<lparr>statusCode := c\<rparr>)
      else (None, h\<lparr>statusCode := c, headersSent := True, writableEnded := True, json_body := Some obj\<rparr>))"

text \<open>
  The file system as the columnar encoder sees it: the files that were there before,
  and what has been done since, in order: a directory made (\<^verbatim>\<open>fs.mkdirSync\<close>), a file
  created (the writer opened on it), the removal of a file requested (\<^verbatim>\<open>fs.unlink\<close>).
\<close>

datatype fs_call = MkdirSync string | OpenFile string | Unlink string

record filesys =
  present :: "string list"
  fs_calls :: "fs_call list"

text \<open>
  What an encoder works on: the response \<open>res\<close>; the stream \<open>sink\<close> that the text
  encoders write to, which is the response itself or, with compression, the gzip stream
  piped into it; the \<^verbatim>\<open>csv-stringify\<close> stream \<open>csv\<close> with the column option it was
  created with; and for the columnar encoder the file system, the schema the file
  writer was opened with, the rows appended to it and the file piped into the response.
\<close>

record io =
  res :: http
  sink :: "string sink"
  csv :: "row sink"
  csv_columns :: "(string \<times> string) list"
  fs :: filesys
  schema :: "(string \<times> parquet_type) list"
  staged :: "row list"
  piped_file :: "string option"

text \<open>
  \<^verbatim>\<open>await write(chunk)\<close> on \<open>sink\<close>. Without compression the sink is the response, whose
  headers go out with the first write.
\<close>

definition write_chunk :: "bool \<Rightarrow> string \<Rightarrow> io \<Rightarrow> io" where
  "write_chunk compress chunk x =
     x\<lparr>sink := sink_write chunk (sink x),
       res := (if compress then res x else (res x)\<lparr>headersSent := True\<rparr>)\<rparr>"

text \<open>\<^verbatim>\<open>sink.end()\<close>\<close>

definition end_sink :: "bool \<Rightarrow> io \<Rightarrow> io" where
  "end_sink compress x =
     x\<lparr>sink := sink_end (sink x), res := (if compress then res x else res_end (res x))\<rparr>"

text \<open>
  The \<^verbatim>\<open>catch\<close> block of \<open>writeJson\<close> and \<open>writeXml\<close>: the error is logged,
  \<^verbatim>\<open>sink.destroy(err)\<close>, then \<^verbatim>\<open>if (!res.writableEnded) res.end()\<close>. Nothing is thrown
  again.
\<close>

definition text_catch :: "string \<Rightarrow> io \<Rightarrow> io" where
  "text_catch e x =
     (let x1 = x\<lparr>sink := sink_destroy e (sink x)\<rparr>
      in if writableEnded (res x1) then x1 else x1\<lparr>res := res_end (res x1)\<rparr>)"

text \<open>
  The response headers of a text encoder. \<^verbatim>\<open>res.setHeader\<close> throws once the headers
  have been sent; the encoders call it before their \<^verbatim>\<open>try\<close> block.
\<close>

definition text_headers :: "string \<Rightarrow> string \<Rightarrow> bool \<Rightarrow> http \<Rightarrow> http" where
  "text_headers content_type file_name compress h =
     (let h1 = setHeader ''Content-Type'' content_type h;
          h2 = setHeader ''Content-Disposition''
                 (''attachment; filename='' @ dq @ file_name @ (if compress then ''.gz'' @ dq else dq)) h1
      in if compress then setHeader ''Content-Encoding'' ''gzip'' h2 else h2)"

section \<open>The array-of-objects encoder (jsonWriter.js)\<close>

text \<open>The object \<^verbatim>\<open>out\<close>: one assignment \<^verbatim>\<open>out[col.target] = row[col.source]\<close> per column.\<close>

definition rekey :: "column list \<Rightarrow> row \<Rightarrow> row" where
  "rekey cols r = fold (\<lambda>col out. obj_set (target col) (get_prop r (source col)) out) cols []"

definition json_row :: "column list \<Rightarrow> bool \<Rightarrow> row \<Rightarrow> io \<times> bool \<Rightarrow> io \<times> bool" where
  "json_row cols compress r = (\<lambda>(x, isFirst).
     let json = JSON_stringify (Obj (own_entries (rekey cols r)))
     in (write_chunk compress ((if isFirst then nl else '','' @ nl) @ json) x, False))"

definition writeJson :: "column list \<Rightarrow> bool \<Rightarrow> io \<Rightarrow> generator \<Rightarrow> string option \<times> io \<times> generator" where
  "writeJson cols compress x g =
     (if headersSent (res x) then (Some ''ERR_HTTP_HEADERS_SENT'', x, g)
      else
        let x1 = x\<lparr>res := text_headers ''application/json'' ''export.json'' compress (res x)\<rparr>;
            x2 = write_chunk compress ''['' x1
        in case for_await (\<lambda>st batch. (None, fold (json_row cols compress) batch st)) g (x2, True) of
             (None, (x3, isFirst), g') \<Rightarrow> (None, end_sink compress (write_chunk compress (nl @ '']'') x3), g')
           | (Some e, (x3, isFirst), g') \<Rightarrow> (None, text_catch e x3, g'))"

section \<open>The markup-tree encoder (xmlWriter.js)\<close>

definition xml_row :: "column list \<Rightarrow> row \<Rightarrow> string \<Rightarrow> string" where
  "xml_row cols r xmlChunk =
     fold (\<lambda>col chunk. chunk @ ''    '' @ valueToXml (target col) (get_prop r (source col)) @ nl)
          cols (xmlChunk @ ''  <record>'' @ nl)
     @ ''  </record>'' @ nl"

definition xml_chunk :: "column list \<Rightarrow> row list \<Rightarrow> string" where
  "xml_chunk cols batch = fold (xml_row cols) batch []"

definition xml_prolog :: string where
  "xml_prolog = ''<?xml version='' @ dq @ ''1.0'' @ dq @ '' encoding='' @ dq @ ''UTF-8'' @ dq @ ''?>'' @ nl
                @ ''<records>'' @ nl"

definition writeXml :: "column list \<Rightarrow> bool \<Rightarrow> io \<Rightarrow> generator \<Rightarrow> string option \<times> io \<times> generator" where
  "writeXml cols compress x g =
     (if headersSent (res x) then (Some ''ERR_HTTP_HEADERS_SENT'', x, g)
      else
        let x1 = x\<lparr>res := text_headers ''application/xml'' ''export.xml'' compress (res x)\<rparr>;
            x2 = write_chunk compress xml_prolog x1
        in case for_await (\<lambda>st batch. (None, write_chunk compress (xml_chunk cols batch) st)) g x2 of
             (None, x3, g') \<Rightarrow> (None, end_sink compress (write_chunk compress ''</records>'' x3), g')
           | (Some e, x3, g') \<Rightarrow> (None, text_catch e x3, g'))"

section \<open>The delimited-text encoder (csvWriter.js)\<close>

text \<open>
  The encoder creates the \<^verbatim>\<open>csv-stringify\<close> stream with the column option
  \<^verbatim>\<open>{source: target, ...}\<close>, pipes it into the response (through gzip with compression),
  and writes one object per row to it. The text that reaches the response is the
  library's rendering of the objects written, in the order written.
\<close>

definition csv_mapped :: "column list \<Rightarrow> row \<Rightarrow> row" where
  "csv_mapped cols r = fold (\<lambda>col mapped. obj_set (source col) (get_prop r (source col)) mapped) cols []"

definition csv_catch :: "string \<Rightarrow> io \<Rightarrow> io" where
  "csv_catch e x =
     (let x1 = x\<lparr>csv := sink_destroy e (csv x)\<rparr>
      in if writableEnded (res x1) then x1 else x1\<lparr>res := res_end (res x1)\<rparr>)"

definition writeCsv :: "column list \<Rightarrow> bool \<Rightarrow> io \<Rightarrow> generator \<Rightarrow> string option \<times> io \<times> generator" where
  "writeCsv cols compress x g =
     (let x0 = x\<lparr>csv_columns := fold (\<lambda>c acc. obj_set (source c) (target c) acc) cols []\<rparr>
      in if headersSent (res x0) then (Some ''ERR_HTTP_HEADERS_SENT'', x0, g)
      else
        let x1 = x0\<lparr>res := text_headers ''text/csv'' ''export.csv'' compress (res x0)\<rparr>
        in case for_await
                  (\<lambda>st batch. (None, fold (\<lambda>r st. st\<lparr>csv := sink_write (csv_mapped cols r) (csv st)\<rparr>) batch st))
                  g x1 of
             (None, x2, g') \<Rightarrow> (None, x2\<lparr>csv := sink_end (csv x2)\<rparr>, g')
           | (Some e, x2, g') \<Rightarrow> (None, csv_catch e x2, g'))"

section \<open>The columnar encoder (parquetWriter.js)\<close>

text \<open>
  What the encoder takes from its environment: the temporary directory and the fresh
  identifier that name the staging file; the conversions \<^verbatim>\<open>BigInt\<close> (which throws on a
  value that is no integer), \<^verbatim>\<open>parseFloat\<close> and \<^verbatim>\<open>new Date\<close>; and for each operation on
  the file system and on the \<^verbatim>\<open>parquetjs\<close> library whether it fails: creating the
  directory, constructing the schema, opening the file, appending a row, closing the
  writer (which writes the footer), and removing the file. The read stream that
  replays the finished file into the response emits \<^verbatim>\<open>end\<close>, or emits \<^verbatim>\<open>error\<close>, or
  neither: when the response is closed before the file has been sent, the pipe is
  undone and the stream stays paused.
\<close>

datatype replay_result = ReplayEnds | ReplayFails string | ReplayStalls

record parquet_env =
  tmp_dir :: string
  uuid :: string
  js_BigInt :: "jsval \<Rightarrow> string + jsval"
  js_parseFloat :: "jsval \<Rightarrow> jsval"
  js_new_Date :: "jsval \<Rightarrow> jsval"
  mkdir_error :: "string option"
  schema_error :: "string option"
  open_error :: "string option"
  append_error :: "row \<Rightarrow> string option"
  writer_close_error :: "string option"
  replay :: replay_result
  unlink_error :: "string option"

text \<open>\<^verbatim>\<open>path.join(TMP_DIR, `export-${uuidv4()}.parquet`)\<close>\<close>

definition tmpFile :: "parquet_env \<Rightarrow> string" where
  "tmpFile env = tmp_dir env @ ''/export-'' @ uuid env @ ''.parquet''"

text \<open>\<^verbatim>\<open>typeof val === 'object'\<close>\<close>

definition typeof_object :: "jsval \<Rightarrow> bool" where
  "typeof_object v = (case v of Null \<Rightarrow> True | Date d \<Rightarrow> True | Arr vs \<Rightarrow> True | Obj kvs \<Rightarrow> True | _ \<Rightarrow> False)"

text \<open>The record built for one row: each column's value, coerced by its source field.\<close>

fun parquet_record :: "parquet_env \<Rightarrow> row \<Rightarrow> column list \<Rightarrow> row \<Rightarrow> string + row" where
  "parquet_record env r [] record = Inr record"
| "parquet_record env r (col # cols) record =
     (let val = get_prop r (source col) in
      if source col = ''id'' then
        (case js_BigInt env val of
           Inl e \<Rightarrow> Inl e
         | Inr v \<Rightarrow> parquet_record env r cols (obj_set (target col) v record))
      else if source col = ''value'' then
        parquet_record env r cols (obj_set (target col) (js_parseFloat env val) record)
      else if source col = ''created_at'' then
        parquet_record env r cols
          (obj_set (target col) (case val of Date d \<Rightarrow> val | _ \<Rightarrow> js_new_Date env val) record)
      else if source col = ''metadata'' \<and> typeof_object val then
        parquet_record env r cols (obj_set (target col) (Str (JSON_stringify val)) record)
      else parquet_record env r cols (obj_set (target col) val record))"

text \<open>
  The rows of one batch: build the record, \<^verbatim>\<open>await writer.appendRow(record)\<close>. The first
  failure leaves the loops.
\<close>

fun parquet_rows :: "parquet_env \<Rightarrow> column list \<Rightarrow> io \<Rightarrow> row list \<Rightarrow> string option \<times> io" where
  "parquet_rows env cols x [] = (None, x)"
| "parquet_rows env cols x (r # rs) =
     (case parquet_record env r cols [] of
        Inl e \<Rightarrow> (Some e, x)
      | Inr record \<Rightarrow>
          (case append_error env record of
             Some e \<Rightarrow> (Some e, x)
           | None \<Rightarrow> parquet_rows env cols (x\<lparr>staged := staged x @ [record]\<rparr>) rs))"

text \<open>
  A call of an \<^verbatim>\<open>async\<close> function that is awaited returns (with a value or by
  throwing), or it stays suspended for ever on a promise that is never settled.
  \<open>Pending\<close> holds the world as it then remains.
\<close>

datatype 'a outcome = Returned 'a | Pending 'a

text \<open>
  The \<^verbatim>\<open>try\<close> block: create the directory, build the schema and open the writer with it
  on the staging file (the file exists from then on), append every row, close the
  writer, pipe the file into the response and wait for the promise that the read
  stream's \<^verbatim>\<open>end\<close> resolves (the response is ended with it) and its \<^verbatim>\<open>error\<close> rejects.
\<close>

definition parquet_try ::
  "parquet_env \<Rightarrow> column list \<Rightarrow> io \<Rightarrow> generator \<Rightarrow> (string option \<times> io \<times> generator) outcome" where
  "parquet_try env cols x g =
     (case mkdir_error env of
        Some e \<Rightarrow> Returned (Some e, x, g)
      | None \<Rightarrow>
          let x1 = x\<lparr>fs := (fs x)\<lparr>fs_calls := fs_calls (fs x) @ [MkdirSync (tmp_dir env)]\<rparr>\<rparr> in
          (case schema_error env of
             Some e \<Rightarrow> Returned (Some e, x1, g)
           | None \<Rightarrow>
               (case open_error env of
                  Some e \<Rightarrow> Returned (Some e, x1, g)
                | None \<Rightarrow>
                    let x2 = x1\<lparr>fs := (fs x1)\<lparr>fs_calls := fs_calls (fs x1) @ [OpenFile (tmpFile env)]\<rparr>,
                                schema := buildSchema cols\<rparr> in
                    (case for_await (parquet_rows env cols) g x2 of
                       (Some e, x3, g') \<Rightarrow> Returned (Some e, x3, g')
                     | (None, x3, g') \<Rightarrow>
                         (case writer_close_error env of
                            Some e \<Rightarrow> Returned (Some e, x3, g')
                          | None \<Rightarrow>
                              (case replay env of
                                 ReplayFails e \<Rightarrow> Returned (Some e, x3, g')
                               | ReplayEnds \<Rightarrow>
                                   Returned (None, x3\<lparr>piped_file := Some (tmpFile env), res := res_end (res x3)\<rparr>, g')
                               | ReplayStalls \<Rightarrow> Pending (None, x3\<lparr>piped_file := Some (tmpFile env)\<rparr>, g')))))))"

text \<open>
  \<open>writeParquet\<close>: the headers, the \<^verbatim>\<open>try\<close> block, the \<^verbatim>\<open>catch\<close> block (log, end the
  response unless it has ended, throw nothing) and the \<^verbatim>\<open>finally\<close> block. A \<^verbatim>\<open>try\<close> block
  that stays suspended reaches neither. \<^verbatim>\<open>fs.unlink(tmpFile, () => {})\<close> is the
  asynchronous removal: the call hands the request to the file system and returns; the
  file is gone when the request has been carried out, and the empty callback drops its
  error.
\<close>

definition parquet_headers :: "http \<Rightarrow> http" where
  "parquet_headers h =
     setHeader ''Content-Disposition'' (''attachment; filename='' @ dq @ ''export.parquet'' @ dq)
       (setHeader ''Content-Type'' ''application/vnd.apache.parquet'' h)"

definition writeParquet ::
  "parquet_env \<Rightarrow> column list \<Rightarrow> io \<Rightarrow> generator \<Rightarrow> (string option \<times> io \<times> generator) outcome" where
  "writeParquet env cols x g =
     (if headersSent (res x) then Returned (Some ''ERR_HTTP_HEADERS_SENT'', x, g)
      else
        let x0 = x\<lparr>res := parquet_headers (res x)\<rparr>
        in case parquet_try env cols x0 g of
             Pending w \<Rightarrow> Pending w
           | Returned (err, x1, g') \<Rightarrow>
               let x2 = (case err of
                           None \<Rightarrow> x1
                         | Some e \<Rightarrow> if writableEnded (res x1) then x1 else x1\<lparr>res := res_end (res x1)\<rparr>)
               in Returned (None, x2\<lparr>fs := (fs x2)\<lparr>fs_calls := fs_calls (fs x2) @ [Unlink (tmpFile env)]\<rparr>\<rparr>, g'))"

text \<open>
  The files that exist when the calls have been made and no requested removal has been
  carried out yet.
\<close>

definition files_existing :: "filesys \<Rightarrow> string list" where
  "files_existing f =
     fold (\<lambda>c fs. case c of OpenFile p \<Rightarrow> List.insert p fs | _ \<Rightarrow> fs) (fs_calls f) (present f)"

text \<open>
  The files that exist once the requested removals have been carried out, each after
  the calls made before it; a removal that fails leaves the file, and a file created
  after the removal of its path was requested stays.
\<close>

definition files_after_removals :: "parquet_env \<Rightarrow> filesys \<Rightarrow> string list" where
  "files_after_removals env f =
     fold (\<lambda>c fs. case c of
                     OpenFile p \<Rightarrow> List.insert p fs
                   | Unlink p \<Rightarrow> (case unlink_error env of None \<Rightarrow> removeAll p fs | Some e \<Rightarrow> fs)
                   | MkdirSync d \<Rightarrow> fs)
          (fs_calls f) (present f)"

section \<open>The download operation (routes/exports.js)\<close>

definition ALLOWED_COLUMNS :: "string list" where
  "ALLOWED_COLUMNS = [''id'', ''created_at'', ''name'', ''value'', ''metadata'']"

definition buildSelectClause :: "column list \<Rightarrow> string + string" where
  "buildSelectClause cols =
     (let invalid = filter (\<lambda>c. source c \<notin> set ALLOWED_COLUMNS) cols
      in if invalid \<noteq> [] then Inl (''Invalid column(s): '' @ join '', '' (map source invalid))
         else Inr (join '', '' (map (\<lambda>c. dq @ source c @ dq) cols)))"

text \<open>
  The \<^verbatim>\<open>catch\<close> block of the handler: the job is marked \<^verbatim>\<open>error\<close>; the structured
  payload is sent if the headers are not out yet, otherwise the response is ended.
\<close>

definition download_catch :: "string \<Rightarrow> job \<Rightarrow> store \<Rightarrow> io \<Rightarrow> string option \<times> store \<times> io" where
  "download_catch e j st x =
     (let st' = updateJobStatus (exportId j) ''error'' st
      in if \<not> headersSent (res x) then
           (case send_json 500 [(''error'', ''Export failed.''), (''message'', e)] (res x) of
              (err, h) \<Rightarrow> (err, st', x\<lparr>res := h\<rparr>))
         else (None, st', x\<lparr>res := res_end (res x)\<rparr>))"

text \<open>\<^verbatim>\<open>`SELECT ${selectClause} FROM public.records ORDER BY id`\<close>\<close>

definition select_sql :: "string \<Rightarrow> string" where
  "select_sql selectClause = ''SELECT '' @ selectClause @ '' FROM public.records ORDER BY id''"

text \<open>
  \<^verbatim>\<open>GET /exports/:id/download\<close>. The result is the error the handler's promise rejects
  with (if any), the job store, the encoder's world and the row generator. The lookup
  of the job and \<open>buildSelectClause\<close> come before the \<^verbatim>\<open>try\<close> block. When the columnar
  encoder it awaits stays suspended so does the handler: nothing is caught and no
  status is recorded. The text encoders are followed to their end, every \<^verbatim>\<open>drain\<close> they
  wait for taken as given; the record of their calls shows the points where they are
  suspended until then.
\<close>

definition download ::
  "parquet_env \<Rightarrow> database \<Rightarrow> nat option \<Rightarrow> string \<Rightarrow> store \<Rightarrow> io
   \<Rightarrow> (string option \<times> store \<times> io \<times> generator option) outcome" where
  "download env d env_size i st x =
     (case getJob st i of
        None \<Rightarrow>
          (case send_json 404 [(''error'', ''Export job not found.'')] (res x) of
             (err, h) \<Rightarrow> Returned (err, st, x\<lparr>res := h\<rparr>, None))
      | Some j \<Rightarrow>
          (case buildSelectClause (columns j) of
             Inl e \<Rightarrow> Returned (Some e, st, x, None)
           | Inr selectClause \<Rightarrow>
               let rowGenerator = streamRows d (select_sql selectClause) None env_size;
                   compress = (compression j = Some ''gzip'');
                   finish = (\<lambda>(thrown, x', g').
                      case thrown of
                        None \<Rightarrow> (None, updateJobStatus (exportId j) ''complete'' st, x', Some g')
                      | Some e \<Rightarrow> (case download_catch e j st x' of (err, st', x'') \<Rightarrow> (err, st', x'', Some g')))
               in if format j = ''csv'' then Returned (finish (writeCsv (columns j) compress x rowGenerator))
                  else if format j = ''json'' then Returned (finish (writeJson (columns j) compress x rowGenerator))
                  else if format j = ''xml'' then Returned (finish (writeXml (columns j) compress x rowGenerator))
                  else if format j = ''parquet'' then
                    (case writeParquet env (columns j) x rowGenerator of
                       Returned r \<Rightarrow> Returned (finish r)
                     | Pending (thrown, x', g') \<Rightarrow> Pending (None, st, x', Some g'))
                  else (case send_json 500 [(''error'', ''Unknown format.'')] (res x) of
                          (None, h) \<Rightarrow> Returned (None, st, x\<lparr>res := h\<rparr>, Some rowGenerator)
                        | (Some e, h) \<Rightarrow>
                            (case download_catch e j st (x\<lparr>res := h\<rparr>) of
                               (err, st', x'') \<Rightarrow> Returned (err, st', x'', Some rowGenerator)))))"

section \<open>Sample inputs\<close>

text \<open>A response on which nothing has been sent, and streams that answer as given.\<close>

definition fresh_response :: http where
  "fresh_response = \<lparr>statusCode = 200, headers = [], headersSent = False, writableEnded = False, json_body = None\<rparr>"

definition fresh_io :: "bool list \<Rightarrow> io" where
  "fresh_io answers =
     \<lparr> res = fresh_response,
       sink = \<lparr>ready = answers, calls = []\<rparr>,
       csv = \<lparr>ready = answers, calls = []\<rparr>,
       csv_columns = [],
       fs = \<lparr>present = [], fs_calls = []\<rparr>,
       schema = [],
       staged = [],
       piped_file = None \<rparr>"

text \<open>
  An environment of the columnar encoder in which no operation fails; \<^verbatim>\<open>BigInt\<close>
  accepts numbers and strings of digits.
\<close>

definition no_faults :: parquet_env where
  "no_faults =
     \<lparr> tmp_dir = ''/tmp/parquet-export'', uuid = ''u1'',
       js_BigInt = (\<lambda>v. case v of
                      Num n \<Rightarrow> Inr v
                    | Str s \<Rightarrow> if s \<noteq> [] \<and> list_all is_digit s then Inr v else Inl ''SyntaxError: Cannot convert to a BigInt''
                    | _ \<Rightarrow> Inl ''TypeError: Cannot convert to a BigInt''),
       js_parseFloat = (\<lambda>v. v),
       js_new_Date = (\<lambda>v. v),
       mkdir_error = None, schema_error = None, open_error = None, append_error = (\<lambda>r. None),
       writer_close_error = None, replay = ReplayEnds, unlink_error = None \<rparr>"

definition sample_columns :: "column list" where
  "sample_columns = [\<lparr>source = ''id'', target = ''key''\<rparr>, \<lparr>source = ''metadata'', target = ''meta''\<rparr>]"

definition sample_job :: "string \<Rightarrow> job" where
  "sample_job fmt =
     \<lparr> exportId = ''j1'', format = fmt, columns = sample_columns, compression = None,
       status = ''pending'', createdAt = 0 \<rparr>"

definition row1 :: row where
  "row1 = [(''id'', Str ''1''), (''metadata'', Obj [(''a'', Num 1)])]"

definition row2 :: row where
  "row2 = [(''id'', Str ''2''), (''metadata'', Obj [(''tags'', Arr [Str ''x'', Str ''y''])])]"

text \<open>A database whose pool hands out no connection.\<close>

definition db_unreachable :: database where
  "db_unreachable = \<lparr>connect_error = Some ''timeout exceeded when trying to connect'', reads = [], close_error = None\<rparr>"

text \<open>A database whose cursor gives one batch and then fails.\<close>

definition db_failing :: database where
  "db_failing = \<lparr>connect_error = None, reads = [Rows [row1], ReadFails ''Connection terminated unexpectedly''], close_error = None\<rparr>"

text \<open>A database whose cursor gives two batches of one row.\<close>

definition db_two_rows :: database where
  "db_two_rows = \<lparr>connect_error = None, reads = [Rows [row1], Rows [row2]], close_error = None\<rparr>"

section \<open>What a generator yields\<close>

text \<open>
  The batches a generator yields when it is pulled until it completes, the error it
  ends with (if any), and the generator afterwards.
\<close>

function collect :: "generator \<Rightarrow> row list list \<times> string option \<times> generator" where
  "collect g =
     (case gen_next g of
        (Return, g') \<Rightarrow> ([], None, g')
      | (Throw e, g') \<Rightarrow> ([], Some e, g')
      | (Yield batch, g') \<Rightarrow> (case collect g' of (bs, err, g'') \<Rightarrow> (batch # bs, err, g'')))"
  by pat_completeness auto
termination
  by (relation "measure (\<lambda>g. length (reads (db g)))") (auto dest: gen_next_Yield_shorter [OF sym])

declare collect.simps [simp del]

text \<open>A database that connects, gives the batches \<open>bs\<close> one read after the other, and closes.\<close>

definition serving :: "row list list \<Rightarrow> database" where
  "serving bs = \<lparr>connect_error = None, reads = map Rows bs, close_error = None\<rparr>"

section \<open>Reference definitions for the properties\<close>






text \<open>The bytes handed to the sink, in the order written.\<close>

definition sink_text :: "io \<Rightarrow> string" where
  "sink_text x = concat (writes_of (calls (sink x)))"

text \<open>
  The array-of-objects document for a sequence of records, as the specification
  words it: an opening bracket; each record re-keyed by output name and serialized as
  one JSON object, with nothing before the first and a comma before every other one
  (each on a line of its own); a closing bracket.
\<close>

definition json_object :: "column list \<Rightarrow> row \<Rightarrow> string" where
  "json_object cols r = JSON_stringify (Obj (own_entries (rekey cols r)))"

definition json_document :: "column list \<Rightarrow> row list \<Rightarrow> string" where
  "json_document cols rows =
     ''['' @ concat (map (\<lambda>(i, r). (if i = 0 then [] else '','') @ nl @ json_object cols r) (enumerate 0 rows))
     @ nl @ '']''"

text \<open>The chunk that the array-of-objects encoder writes for the record at position \<open>i\<close>.\<close>

definition json_chunk :: "column list \<Rightarrow> nat \<Rightarrow> row \<Rightarrow> string" where
  "json_chunk cols i r = (if i = 0 then nl else '','' @ nl) @ json_object cols r"

text \<open>
  The markup-tree document for a sequence of records: the declaration and the root's
  opening tag, one \<^verbatim>\<open>record\<close> element per record with one child per column, the root's
  closing tag.
\<close>

definition xml_record :: "column list \<Rightarrow> row \<Rightarrow> string" where
  "xml_record cols r =
     ''  <record>'' @ nl
     @ concat (map (\<lambda>col. ''    '' @ valueToXml (target col) (get_prop r (source col)) @ nl) cols)
     @ ''  </record>'' @ nl"

definition xml_document :: "column list \<Rightarrow> row list \<Rightarrow> string" where
  "xml_document cols rows = xml_prolog @ concat (map (xml_record cols) rows) @ ''</records>''"

text \<open>
  Back-pressure on a record of calls. A record is \<open>paced\<close> when every write that the
  stream answered with \<open>False\<close> is directly followed by the wait for \<^verbatim>\<open>drain\<close>.
  \<open>performed k\<close> is the part of a record that has happened when the stream has emitted
  \<^verbatim>\<open>drain\<close> \<open>k\<close> times: the encoder is suspended at the first wait that no \<^verbatim>\<open>drain\<close>
  has answered.
\<close>

fun paced :: "'c sink_call list \<Rightarrow> bool" where
  "paced [] = True"
| "paced (Write c ok # cs) = (if ok then paced cs else (case cs of AwaitDrain # cs' \<Rightarrow> paced cs' | _ \<Rightarrow> False))"
| "paced (AwaitDrain # cs) = paced cs"
| "paced (End # cs) = paced cs"
| "paced (Destroy e # cs) = paced cs"

fun performed :: "nat \<Rightarrow> 'c sink_call list \<Rightarrow> 'c sink_call list" where
  "performed k [] = []"
| "performed k (AwaitDrain # cs) = AwaitDrain # (case k of 0 \<Rightarrow> [] | Suc k' \<Rightarrow> performed k' cs)"
| "performed k (Write c ok # cs) = Write c ok # performed k cs"
| "performed k (End # cs) = End # performed k cs"
| "performed k (Destroy e # cs) = Destroy e # performed k cs"

fun pending_writes :: "'c sink_call list \<Rightarrow> nat" where
  "pending_writes [] = 0"
| "pending_writes (Write c ok # cs) = (if ok then 0 else 1) + pending_writes cs"
| "pending_writes (AwaitDrain # cs) = pending_writes cs"
| "pending_writes (End # cs) = pending_writes cs"
| "pending_writes (Destroy e # cs) = pending_writes cs"

fun awaits :: "'c sink_call list \<Rightarrow> nat" where
  "awaits [] = 0"
| "awaits (AwaitDrain # cs) = Suc (awaits cs)"
| "awaits (Write c ok # cs) = awaits cs"
| "awaits (End # cs) = awaits cs"
| "awaits (Destroy e # cs) = awaits cs"

subsection \<open>Reading JSON\<close>














text \<open>The status code and the JSON payload of the response.\<close>

definition res_payload :: "io \<Rightarrow> nat \<times> (string \<times> string) list option" where
  "res_payload x = (statusCode (res x), json_body (res x))"

section \<open>Properties\<close>

subsection \<open>The job store\<close>

text \<open>
  C10. For an identifier that the store does not hold, \<open>updateJobStatus\<close> returns the
  store as it was: no entry is created, none is changed, and \<open>getJob\<close> still finds
  nothing. The function has no failing branch.
\<close>

theorem updateJobStatus_absent:
  assumes "getJob st i = None"
  shows "updateJobStatus i s st = st \<and> getJob (updateJobStatus i s st) i = None"
  using assms by (simp add: updateJobStatus_def getJob_def)

theorem updateJobStatus_absent_witness:
  "getJob [''a'' \<mapsto> \<lparr> exportId = ''a'', format = ''csv'', columns = [], compression = None, status = ''pending'', createdAt = 0 \<rparr>] ''b'' = None
   \<and> updateJobStatus ''b'' ''complete'' [''a'' \<mapsto> \<lparr> exportId = ''a'', format = ''csv'', columns = [], compression = None, status = ''pending'', createdAt = 0 \<rparr>]
       = [''a'' \<mapsto> \<lparr> exportId = ''a'', format = ''csv'', columns = [], compression = None, status = ''pending'', createdAt = 0 \<rparr>]
   \<and> getJob (updateJobStatus ''b'' ''complete'' [''a'' \<mapsto> \<lparr> exportId = ''a'', format = ''csv'', columns = [], compression = None, status = ''pending'', createdAt = 0 \<rparr>]) ''b'' = None"
  using updateJobStatus_absent [of "[''a'' \<mapsto> \<lparr> exportId = ''a'', format = ''csv'', columns = [], compression = None, status = ''pending'', createdAt = 0 \<rparr>]" "''b''" "''complete''"]
  by (simp add: getJob_def)

subsection \<open>The columnar schema\<close>

lemmas char_class_defs = name_char_def is_digit_def is_lower_def is_upper_def code_def













subsection \<open>Element names and text content\<close>


















subsection \<open>The batch source\<close>

lemmas gen_defs = streamRows_def cursor_size_def gen_next_def gen_return_def read_once_def
  finish_reading_def log_db_def

text \<open>
  C3. The calls \<open>streamRows\<close> makes on three termination paths. When the cursor is read
  to exhaustion the cursor is closed and the client released. When the first read
  rejects, the error reaches the consumer and the client is released, but
  \<^verbatim>\<open>cursor.close()\<close> is never called. When the consumer leaves after the first batch
  (the loop calls \<^verbatim>\<open>return()\<close>), the client is released and again the cursor is not
  closed.
\<close>

theorem streamRows_cursor_close_only_on_exhaustion:
  "events (snd (snd (for_await (\<lambda>s b. (None, s @ b))
      (streamRows \<lparr>connect_error = None, reads = [Rows [[(''id'', Str ''1'')]]], close_error = None\<rparr> ''SELECT'' None None) [])))
     = [Connect, OpenCursor, Read 500, Read 500, CloseCursor, Release]
   \<and> gen_next (streamRows \<lparr>connect_error = None, reads = [ReadFails ''fetch failed''], close_error = None\<rparr> ''SELECT'' None None)
     = (Throw ''fetch failed'',
        \<lparr>phase = Finished, db = \<lparr>connect_error = None, reads = [], close_error = None\<rparr>, sql = ''SELECT'',
          fetch_size = 500, events = [Connect, OpenCursor, Read 500, Release]\<rparr>)
   \<and> events (gen_return (snd (gen_next
      (streamRows \<lparr>connect_error = None, reads = [Rows [[(''id'', Str ''1'')]], Rows [[(''id'', Str ''2'')]]], close_error = None\<rparr>
         ''SELECT'' None None))))
     = [Connect, OpenCursor, Read 500, Release]"
  by (simp add: for_await.simps gen_defs)

subsection \<open>The download operation and its encoders\<close>

lemmas model_defs = download_def select_sql_def getJob_def buildSelectClause_def ALLOWED_COLUMNS_def writeJson_def writeXml_def
  writeCsv_def writeParquet_def parquet_try_def parquet_headers_def text_headers_def setHeader_def write_chunk_def
  end_sink_def text_catch_def csv_catch_def res_end_def send_json_def download_catch_def updateJobStatus_def
  sink_write_def sink_end_def sink_destroy_def json_row_def rekey_def xml_chunk_def xml_row_def csv_mapped_def
  obj_set_def get_prop_def join_def dq_def nl_def tmpFile_def typeof_object_def

lemmas sample_defs = fresh_io_def fresh_response_def no_faults_def sample_columns_def sample_job_def row1_def
  row2_def db_unreachable_def db_failing_def db_two_rows_def

text \<open>A property of the loop state that every turn of the body keeps holds after the loop.\<close>

lemma for_await_invariant:
  "(\<And>s b. P s \<Longrightarrow> P (snd (body s b))) \<Longrightarrow> P s \<Longrightarrow> P (fst (snd (for_await body g s)))"
proof (induction body g s rule: for_await.induct)
  case (1 body g s)
  note step = "1.prems"(1)
  note Ps = "1.prems"(2)
  show ?case
  proof (cases "gen_next g")
    case (Pair r g')
    show ?thesis
    proof (cases r)
      case (Yield batch)
      show ?thesis
      proof (cases "body s batch")
        case (Pair err s')
        have Ps': "P s'" using step [OF Ps, of batch] Pair by simp
        show ?thesis
        proof (cases err)
          case None
          show ?thesis
            using "1.IH" [OF \<open>gen_next g = (r, g')\<close> [symmetric] Yield \<open>body s batch = (err, s')\<close> [symmetric] None step Ps']
            by (simp add: for_await.simps [of body g s] \<open>gen_next g = (r, g')\<close> Yield \<open>body s batch = (err, s')\<close> None)
        next
          case (Some e)
          show ?thesis
            using Ps' by (simp add: for_await.simps [of body g s] \<open>gen_next g = (r, g')\<close> Yield \<open>body s batch = (err, s')\<close> Some)
        qed
      qed
    next
      case Return
      then show ?thesis using Ps by (simp add: for_await.simps [of body g s] Pair)
    next
      case (Throw e)
      then show ?thesis using Ps by (simp add: for_await.simps [of body g s] Pair)
    qed
  qed
qed

text \<open>
  C1. Two downloads. A delimited-text job whose pool hands out no connection: the
  error is raised before anything was written, yet the handler's promise is not
  rejected, no structured payload is sent (the status code stays 200 and there is no
  JSON body), the response is simply ended, and the job is marked \<^verbatim>\<open>complete\<close>. An
  array-of-objects job whose second read fails: the sink has received the bracket and
  the first record, it is destroyed and \<^verbatim>\<open>sink.end()\<close> is not reached (the \<^verbatim>\<open>catch\<close> block
  ends the response), no payload is sent, and the client is released while
  \<^verbatim>\<open>cursor.close()\<close> is not called.
\<close>

theorem download_error_sends_no_payload:
  "(case download no_faults db_unreachable None ''j1'' [''j1'' \<mapsto> sample_job ''csv''] (fresh_io []) of
      Returned (rejected, st, x, g) \<Rightarrow>
        rejected = None
        \<and> writes_of (calls (csv x)) = [] \<and> writes_of (calls (sink x)) = []
        \<and> calls (csv x) = [Destroy ''timeout exceeded when trying to connect'']
        \<and> statusCode (res x) = 200 \<and> json_body (res x) = None \<and> writableEnded (res x)
        \<and> map_option status (st ''j1'') = Some ''complete''
    | Pending w \<Rightarrow> False)
   \<and> (case download no_faults db_failing None ''j1'' [''j1'' \<mapsto> sample_job ''json''] (fresh_io []) of
      Returned (rejected, st, x, g) \<Rightarrow>
        rejected = None
        \<and> length (writes_of (calls (sink x))) = 2
        \<and> last (calls (sink x)) = Destroy ''Connection terminated unexpectedly''
        \<and> End \<notin> set (calls (sink x))
        \<and> statusCode (res x) = 200 \<and> json_body (res x) = None \<and> writableEnded (res x)
        \<and> map_option events g = Some [Connect, OpenCursor, Read 500, Read 500, Release]
    | Pending w \<Rightarrow> False)"
  by (simp add: model_defs for_await.simps gen_defs sample_defs own_entries_def array_index_def char_class_defs)

text \<open>
  C2. A markup-tree job whose second read fails: the encoder catches the error,
  destroys the sink without reaching \<^verbatim>\<open>sink.end()\<close> and returns normally, so the handler
  records the status \<^verbatim>\<open>complete\<close>.
\<close>

theorem download_marks_failed_export_complete:
  "(case download no_faults db_failing None ''j1'' [''j1'' \<mapsto> sample_job ''xml''] (fresh_io []) of
      Returned (rejected, st, x, g) \<Rightarrow>
        rejected = None
        \<and> map_option status (st ''j1'') = Some ''complete''
        \<and> Destroy ''Connection terminated unexpectedly'' \<in> set (calls (sink x))
        \<and> End \<notin> set (calls (sink x))
    | Pending w \<Rightarrow> False)"
  by (simp add: model_defs for_await.simps gen_defs sample_defs)

subsection \<open>The staging file\<close>

lemma parquet_rows_fs: "fs (snd (parquet_rows env cols x rs)) = fs x"
  by (induction rs arbitrary: x) (simp_all split: sum.splits option.splits)

lemma parquet_rows_res: "res (snd (parquet_rows env cols x rs)) = res x"
  by (induction rs arbitrary: x) (simp_all split: sum.splits option.splits)

lemma parquet_try_fs:
  "(case parquet_try env cols x g of
      Returned (err, x1, g1) \<Rightarrow>
        present (fs x1) = present (fs x)
        \<and> (\<exists>pre \<in> {[], [MkdirSync (tmp_dir env)], [MkdirSync (tmp_dir env), OpenFile (tmpFile env)]}.
             fs_calls (fs x1) = fs_calls (fs x) @ pre)
    | Pending (err, x1, g1) \<Rightarrow>
        replay env = ReplayStalls
        \<and> present (fs x1) = present (fs x)
        \<and> fs_calls (fs x1) = fs_calls (fs x) @ [MkdirSync (tmp_dir env), OpenFile (tmpFile env)])"
proof -
  consider (early) "mkdir_error env \<noteq> None \<or> schema_error env \<noteq> None \<or> open_error env \<noteq> None"
    | (opened) "mkdir_error env = None" "schema_error env = None" "open_error env = None"
    by auto
  then show ?thesis
  proof cases
    case early
    then show ?thesis
      by (cases "mkdir_error env"; cases "schema_error env"; cases "open_error env")
         (simp_all add: parquet_try_def Let_def)
  next
    case opened
    let ?x2 = "x\<lparr>fs := (fs x)\<lparr>fs_calls := fs_calls (fs x) @ [MkdirSync (tmp_dir env), OpenFile (tmpFile env)]\<rparr>,
                 schema := buildSchema cols\<rparr>"
    obtain e x3 g' where fa: "for_await (parquet_rows env cols) g ?x2 = (e, x3, g')"
      by (cases "for_await (parquet_rows env cols) g ?x2") auto
    have "fs (fst (snd (for_await (parquet_rows env cols) g ?x2))) = fs ?x2"
      by (rule for_await_invariant [where P = "\<lambda>z. fs z = fs ?x2"])
         (simp_all add: parquet_rows_fs)
    then have u: "fs x3 = fs ?x2" by (simp add: fa)
    show ?thesis
      using u by (simp add: parquet_try_def opened Let_def fa split: option.splits replay_result.splits)
  qed
qed

lemma files_after_removal_requested:
  "unlink_error env = None \<Longrightarrow> p \<notin> set (files_after_removals env (f\<lparr>fs_calls := cs @ [Unlink p]\<rparr>))"
  by (simp add: files_after_removals_def)

text \<open>
  C4, as stated, fails: an encode in which nothing fails returns, and the staging file
  is then still among the files; its removal has only been requested.
\<close>

theorem writeParquet_file_exists_on_return:
  "(case writeParquet no_faults sample_columns (fresh_io []) (streamRows db_two_rows ''SELECT'' None None) of
      Returned (thrown, x', g') \<Rightarrow>
        thrown = None
        \<and> tmpFile no_faults \<in> set (files_existing (fs x'))
        \<and> fs_calls (fs x') = [MkdirSync ''/tmp/parquet-export'', OpenFile (tmpFile no_faults), Unlink (tmpFile no_faults)]
    | Pending w \<Rightarrow> False)"
  by (simp add: model_defs files_existing_def for_await.simps gen_defs sample_defs char_class_defs Let_def)

text \<open>
  C4, amended. For every columnar encode, whatever step fails or none: once the call
  has returned, it has requested the removal of the staging file, once, as the last
  thing it did to the file system and after creating the file if it got that far; when
  that removal is carried out without error the file no longer exists. (A call on a
  response whose headers are already out throws while setting the headers and has done
  nothing to the file system.)
\<close>

theorem writeParquet_requests_removal:
  "(case writeParquet env cols x g of
      Returned (thrown, x', g') \<Rightarrow>
        (headersSent (res x) \<longrightarrow> thrown \<noteq> None \<and> fs x' = fs x)
        \<and> (\<not> headersSent (res x) \<longrightarrow>
             thrown = None
             \<and> present (fs x') = present (fs x)
             \<and> (\<exists>pre \<in> {[], [MkdirSync (tmp_dir env)], [MkdirSync (tmp_dir env), OpenFile (tmpFile env)]}.
                  fs_calls (fs x') = fs_calls (fs x) @ pre @ [Unlink (tmpFile env)])
             \<and> (unlink_error env = None \<longrightarrow> tmpFile env \<notin> set (files_after_removals env (fs x'))))
    | Pending w \<Rightarrow> True)"
proof (cases "headersSent (res x)")
  case True
  then show ?thesis by (simp add: writeParquet_def)
next
  case False
  let ?x0 = "x\<lparr>res := parquet_headers (res x)\<rparr>"
  note t = parquet_try_fs [where env = env and cols = cols and x = ?x0 and g = g]
  show ?thesis
  proof (cases "parquet_try env cols ?x0 g")
    case (Pending w)
    then show ?thesis by (simp add: writeParquet_def False)
  next
    case (Returned r)
    obtain err x1 g1 where r: "r = (err, x1, g1)" by (cases r) auto
    have p: "present (fs x1) = present (fs x)"
      and c: "\<exists>pre \<in> {[], [MkdirSync (tmp_dir env)], [MkdirSync (tmp_dir env), OpenFile (tmpFile env)]}.
               fs_calls (fs x1) = fs_calls (fs x) @ pre"
      using t by (simp_all add: Returned r)
    let ?x2 = "case err of None \<Rightarrow> x1 | Some e \<Rightarrow> if writableEnded (res x1) then x1 else x1\<lparr>res := res_end (res x1)\<rparr>"
    have f2: "fs ?x2 = fs x1" by (simp split: option.splits)
    let ?x' = "?x2\<lparr>fs := (fs ?x2)\<lparr>fs_calls := fs_calls (fs ?x2) @ [Unlink (tmpFile env)]\<rparr>\<rparr>"
    have w: "writeParquet env cols x g = Returned (None, ?x', g1)"
      by (simp add: writeParquet_def False Returned r Let_def)
    have a: "present (fs ?x') = present (fs x)" using p by (simp add: f2)
    have b: "\<exists>pre \<in> {[], [MkdirSync (tmp_dir env)], [MkdirSync (tmp_dir env), OpenFile (tmpFile env)]}.
               fs_calls (fs ?x') = fs_calls (fs x) @ pre @ [Unlink (tmpFile env)]"
      using c by (simp add: f2)
    have d: "unlink_error env = None \<longrightarrow> tmpFile env \<notin> set (files_after_removals env (fs ?x'))"
      using files_after_removal_requested [where env = env and p = "tmpFile env" and f = "fs ?x2" and cs = "fs_calls (fs ?x2)"]
      by simp
    show ?thesis
      unfolding w using False a b d by simp
  qed
qed

theorem writeParquet_requests_removal_witness:
  "\<not> headersSent (res (fresh_io []))
   \<and> unlink_error no_faults = None
   \<and> (case writeParquet (no_faults\<lparr>append_error := (\<lambda>r. Some ''invalid value'')\<rparr>) sample_columns (fresh_io [])
             (streamRows db_two_rows ''SELECT'' None None) of
        Returned (thrown, x', g') \<Rightarrow>
          thrown = None
          \<and> fs_calls (fs x') = [MkdirSync ''/tmp/parquet-export'', OpenFile (tmpFile no_faults), Unlink (tmpFile no_faults)]
          \<and> files_existing (fs x') = [tmpFile no_faults]
          \<and> files_after_removals no_faults (fs x') = []
          \<and> events g' = [Connect, OpenCursor, Read 500, Release]
      | Pending w \<Rightarrow> False)"
  using writeParquet_requests_removal [where env = "no_faults\<lparr>append_error := (\<lambda>r. Some ''invalid value'')\<rparr>"
      and cols = sample_columns and x = "fresh_io []" and g = "streamRows db_two_rows ''SELECT'' None None"]
  by (simp add: model_defs files_existing_def files_after_removals_def for_await.simps gen_defs sample_defs
      char_class_defs Let_def)

text \<open>
  When the call does not return. The encode stays suspended only at the replay, when
  the read stream neither ends nor fails; the staging file has been created, its
  removal has not been requested, and the file stays. In every other case the call
  returns.
\<close>

theorem writeParquet_pending_keeps_file:
  "(case writeParquet env cols x g of
      Returned r \<Rightarrow> True
    | Pending (thrown, x', g') \<Rightarrow>
        replay env = ReplayStalls
        \<and> \<not> headersSent (res x)
        \<and> fs_calls (fs x') = fs_calls (fs x) @ [MkdirSync (tmp_dir env), OpenFile (tmpFile env)]
        \<and> tmpFile env \<in> set (files_existing (fs x'))
        \<and> tmpFile env \<in> set (files_after_removals env (fs x')))
   \<and> (replay env \<noteq> ReplayStalls \<longrightarrow> (\<exists>r. writeParquet env cols x g = Returned r))"
proof (cases "headersSent (res x)")
  case True
  then show ?thesis by (simp add: writeParquet_def)
next
  case False
  let ?x0 = "x\<lparr>res := parquet_headers (res x)\<rparr>"
  note t = parquet_try_fs [where env = env and cols = cols and x = ?x0 and g = g]
  show ?thesis
  proof (cases "parquet_try env cols ?x0 g")
    case (Returned r)
    obtain err x1 g1 where r: "r = (err, x1, g1)" by (cases r) auto
    show ?thesis by (simp add: writeParquet_def False Returned r Let_def)
  next
    case (Pending w)
    obtain err x1 g1 where w: "w = (err, x1, g1)" by (cases w) auto
    have st: "replay env = ReplayStalls"
      and c: "fs_calls (fs x1) = fs_calls (fs x) @ [MkdirSync (tmp_dir env), OpenFile (tmpFile env)]"
      using t by (simp_all add: Pending w)
    have e: "tmpFile env \<in> set (files_existing (fs x1))"
      by (simp add: files_existing_def c)
    have f: "tmpFile env \<in> set (files_after_removals env (fs x1))"
      by (simp add: files_after_removals_def c)
    show ?thesis
      using st c e f by (simp add: writeParquet_def False Pending w)
  qed
qed

theorem writeParquet_pending_keeps_file_witness:
  "(case writeParquet (no_faults\<lparr>replay := ReplayStalls\<rparr>) sample_columns (fresh_io [])
           (streamRows db_two_rows ''SELECT'' None None) of
      Returned r \<Rightarrow> False
    | Pending (thrown, x', g') \<Rightarrow>
        fs_calls (fs x') = [MkdirSync ''/tmp/parquet-export'', OpenFile (tmpFile no_faults)]
        \<and> files_after_removals no_faults (fs x') = [tmpFile no_faults]
        \<and> length (staged x') = 2
        \<and> \<not> writableEnded (res x'))
   \<and> (\<exists>r. writeParquet no_faults sample_columns (fresh_io []) (streamRows db_two_rows ''SELECT'' None None) = Returned r)"
  using writeParquet_pending_keeps_file [where env = "no_faults\<lparr>replay := ReplayStalls\<rparr>" and cols = sample_columns
      and x = "fresh_io []" and g = "streamRows db_two_rows ''SELECT'' None None"]
    writeParquet_pending_keeps_file [where env = no_faults and cols = sample_columns
      and x = "fresh_io []" and g = "streamRows db_two_rows ''SELECT'' None None"]
  by (simp add: model_defs files_existing_def files_after_removals_def for_await.simps gen_defs sample_defs
      char_class_defs Let_def)

subsection \<open>The text encoders\<close>

lemma for_await_collect:
  "for_await (\<lambda>s b. (None, f b s)) g s = (case collect g of (bs, err, g') \<Rightarrow> (err, fold f bs s, g'))"
proof (induction g arbitrary: s rule: collect.induct)
  case (1 g)
  show ?case
  proof (cases "gen_next g")
    case (Pair r g')
    show ?thesis
    proof (cases r)
      case (Yield batch)
      have ih: "for_await (\<lambda>s b. (None, f b s)) g' (f batch s)
                = (case collect g' of (bs, err, g'') \<Rightarrow> (err, fold f bs (f batch s), g''))"
        using "1.IH" [OF Pair [symmetric] Yield] .
      show ?thesis
        by (simp add: for_await.simps [of _ g s] collect.simps [of g] Pair Yield ih split: prod.splits)
    next
      case Return
      then show ?thesis by (simp add: for_await.simps [of _ g s] collect.simps [of g] Pair)
    next
      case (Throw e)
      then show ?thesis by (simp add: for_await.simps [of _ g s] collect.simps [of g] Pair)
    qed
  qed
qed

lemma gen_next_serving_end:
  "phase g \<noteq> Finished \<Longrightarrow> connect_error (db g) = None \<Longrightarrow> close_error (db g) = None \<Longrightarrow>
   reads (db g) = [] \<or> (\<exists>rest. reads (db g) = Rows [] # rest) \<Longrightarrow> fst (gen_next g) = Return"
  by (cases "phase g") (auto simp add: gen_next_def read_once_def finish_reading_def log_db_def Let_def)

lemma gen_next_serving_yield:
  "phase g \<noteq> Finished \<Longrightarrow> connect_error (db g) = None \<Longrightarrow> reads (db g) = Rows b # rest \<Longrightarrow> b \<noteq> [] \<Longrightarrow>
   \<exists>g'. gen_next g = (Yield b, g') \<and> phase g' = AtYield \<and> reads (db g') = rest
        \<and> connect_error (db g') = None \<and> close_error (db g') = close_error (db g)"
  by (cases "phase g") (auto simp add: gen_next_def read_once_def finish_reading_def log_db_def Let_def)

lemma collect_serving_aux:
  "phase g \<noteq> Finished \<Longrightarrow> connect_error (db g) = None \<Longrightarrow> close_error (db g) = None \<Longrightarrow> reads (db g) = map Rows bs \<Longrightarrow>
   fst (collect g) = takeWhile (\<lambda>b. b \<noteq> []) bs \<and> fst (snd (collect g)) = None"
proof (induction bs arbitrary: g)
  case Nil
  have "fst (gen_next g) = Return"
    using Nil.prems by (intro gen_next_serving_end) simp_all
  then show ?case
    by (cases "gen_next g") (simp add: collect.simps [of g])
next
  case (Cons b bs)
  show ?case
  proof (cases "b = []")
    case True
    have "fst (gen_next g) = Return"
      using Cons.prems True by (intro gen_next_serving_end) simp_all
    then show ?thesis using True
      by (cases "gen_next g") (simp add: collect.simps [of g])
  next
    case False
    obtain g' where n: "gen_next g = (Yield b, g')" and p: "phase g' = AtYield" and r: "reads (db g') = map Rows bs"
      and c: "connect_error (db g') = None" and k: "close_error (db g') = None"
      using gen_next_serving_yield [of g b "map Rows bs"] Cons.prems False by auto
    have ih: "fst (collect g') = takeWhile (\<lambda>b. b \<noteq> []) bs \<and> fst (snd (collect g')) = None"
      by (rule Cons.IH) (simp_all add: p r c k)
    show ?thesis
      using ih False by (cases "collect g'") (simp add: collect.simps [of g] n)
  qed
qed

lemma collect_serving:
  "fst (collect (streamRows (serving bs) q n m)) = takeWhile (\<lambda>b. b \<noteq> []) bs
   \<and> fst (snd (collect (streamRows (serving bs) q n m))) = None"
  by (rule collect_serving_aux) (simp_all add: streamRows_def serving_def)


lemma writes_of_append: "writes_of (cs @ ds) = writes_of cs @ writes_of ds"
  by (induction cs rule: writes_of.induct) simp_all

lemma writes_sink_write: "writes_of (calls (sink_write chunk s)) = writes_of (calls s) @ [chunk]"
  by (simp add: sink_write_def writes_of_append split: list.splits)

lemma writes_write_chunk: "writes_of (calls (sink (write_chunk c chunk x))) = writes_of (calls (sink x)) @ [chunk]"
  by (simp add: write_chunk_def writes_sink_write)

lemma res_write_chunk: "headersSent (res (write_chunk c chunk x)) = (\<not> c \<or> headersSent (res x))"
  by (simp add: write_chunk_def)

lemma writes_end_sink: "writes_of (calls (sink (end_sink c x))) = writes_of (calls (sink x))"
  by (simp add: end_sink_def sink_end_def writes_of_append)

lemma writes_text_catch: "writes_of (calls (sink (text_catch e x))) = writes_of (calls (sink x))"
  by (simp add: text_catch_def sink_destroy_def writes_of_append Let_def)

lemma fold_json_row:
  "writes_of (calls (sink (fst (fold (json_row cols c) rows (x, n = 0)))))
     = writes_of (calls (sink x)) @ map (\<lambda>(i, r). json_chunk cols i r) (enumerate n rows)"
proof (induction rows arbitrary: x n)
  case Nil
  show ?case by simp
next
  case (Cons r rows)
  have step: "json_row cols c r (x, n = 0) = (write_chunk c (json_chunk cols n r) x, Suc n = 0)"
    by (simp add: json_row_def json_chunk_def json_object_def)
  show ?case
    using Cons.IH [of "write_chunk c (json_chunk cols n r) x" "Suc n"]
    by (simp add: step writes_write_chunk)
qed

lemma fold_fold_concat: "fold (\<lambda>b st. fold f b st) bs st = fold f (concat bs) st"
  by (induction bs arbitrary: st) simp_all

lemma json_document_chunks:
  "json_document cols rows = ''['' @ concat (map (\<lambda>(i, r). json_chunk cols i r) (enumerate 0 rows)) @ nl @ '']''"
proof -
  have "(\<lambda>(i, r). (if i = 0 then [] else '','') @ nl @ json_object cols r) = (\<lambda>(i, r). json_chunk cols i r)"
    by (auto simp add: json_chunk_def fun_eq_iff)
  then show ?thesis by (simp add: json_document_def)
qed

lemma writeJson_collect:
  assumes "\<not> headersSent (res x)"
  shows "writeJson cols c x g =
     (case collect g of (bs, err, g') \<Rightarrow>
        let x3 = fst (fold (json_row cols c) (concat bs)
                   (write_chunk c ''['' (x\<lparr>res := text_headers ''application/json'' ''export.json'' c (res x)\<rparr>), True))
        in (None, (case err of None \<Rightarrow> end_sink c (write_chunk c (nl @ '']'') x3) | Some e \<Rightarrow> text_catch e x3), g'))"
proof -
  obtain bs err g' where cg: "collect g = (bs, err, g')" by (cases "collect g") auto
  obtain x3 f where fo: "fold (json_row cols c) (concat bs)
                   (write_chunk c ''['' (x\<lparr>res := text_headers ''application/json'' ''export.json'' c (res x)\<rparr>), True) = (x3, f)"
    by (cases "fold (json_row cols c) (concat bs)
                   (write_chunk c ''['' (x\<lparr>res := text_headers ''application/json'' ''export.json'' c (res x)\<rparr>), True)") auto
  show ?thesis
    using assms
    by (cases err)
       (simp_all add: writeJson_def Let_def for_await_collect [of "\<lambda>b st. fold (json_row cols c) b st"] fold_fold_concat cg fo)
qed

lemma writeJson_writes:
  assumes "\<not> headersSent (res x)"
  shows "writes_of (calls (sink (fst (snd (writeJson cols c x g)))))
     = writes_of (calls (sink x)) @ [''['']
       @ map (\<lambda>(i, r). json_chunk cols i r) (enumerate 0 (concat (fst (collect g))))
       @ (case fst (snd (collect g)) of None \<Rightarrow> [nl @ '']''] | Some e \<Rightarrow> [])"
proof -
  obtain bs err g' where cg: "collect g = (bs, err, g')" by (cases "collect g") auto
  let ?x2 = "write_chunk c ''['' (x\<lparr>res := text_headers ''application/json'' ''export.json'' c (res x)\<rparr>)"
  have w2: "writes_of (calls (sink ?x2)) = writes_of (calls (sink x)) @ [''['']"
    by (simp add: writes_write_chunk)
  have w3: "writes_of (calls (sink (fst (fold (json_row cols c) (concat bs) (?x2, True)))))
       = writes_of (calls (sink x)) @ [''['']  @ map (\<lambda>(i, r). json_chunk cols i r) (enumerate 0 (concat bs))"
    using fold_json_row [of cols c "concat bs" ?x2 0] by (simp add: w2)
  show ?thesis
    by (cases err) (simp_all add: writeJson_collect [OF assms] cg Let_def w3 writes_end_sink writes_write_chunk writes_text_catch)
qed


lemma fold_append_map: "fold (\<lambda>a acc. acc @ h a) xs init = init @ concat (map h xs)"
  by (induction xs arbitrary: init) simp_all

lemma xml_row_record: "xml_row cols r chunk = chunk @ xml_record cols r"
  by (simp add: xml_row_def xml_record_def fold_append_map)

lemma xml_chunk_records: "xml_chunk cols batch = concat (map (xml_record cols) batch)"
proof -
  have "fold (xml_row cols) batch init = init @ concat (map (xml_record cols) batch)" for init
    by (induction batch arbitrary: init) (simp_all add: xml_row_record)
  then show ?thesis by (simp add: xml_chunk_def)
qed

lemma fold_write_chunk:
  "writes_of (calls (sink (fold (\<lambda>b st. write_chunk c (h b) st) bs x))) = writes_of (calls (sink x)) @ map h bs"
  by (induction bs arbitrary: x) (simp_all add: writes_write_chunk)

lemma writeXml_collect:
  assumes "\<not> headersSent (res x)"
  shows "writeXml cols c x g =
     (case collect g of (bs, err, g') \<Rightarrow>
        let x3 = fold (\<lambda>b st. write_chunk c (xml_chunk cols b) st) bs
                   (write_chunk c xml_prolog (x\<lparr>res := text_headers ''application/xml'' ''export.xml'' c (res x)\<rparr>))
        in (None, (case err of None \<Rightarrow> end_sink c (write_chunk c ''</records>'' x3) | Some e \<Rightarrow> text_catch e x3), g'))"
proof -
  obtain bs err g' where cg: "collect g = (bs, err, g')" by (cases "collect g") auto
  show ?thesis
    using assms
    by (cases err)
       (simp_all add: writeXml_def Let_def for_await_collect [of "\<lambda>b st. write_chunk c (xml_chunk cols b) st"] cg)
qed

lemma writeXml_writes:
  assumes "\<not> headersSent (res x)"
  shows "writes_of (calls (sink (fst (snd (writeXml cols c x g)))))
     = writes_of (calls (sink x)) @ [xml_prolog]
       @ map (xml_chunk cols) (fst (collect g))
       @ (case fst (snd (collect g)) of None \<Rightarrow> [''</records>''] | Some e \<Rightarrow> [])"
proof -
  obtain bs err g' where cg: "collect g = (bs, err, g')" by (cases "collect g") auto
  show ?thesis
    by (cases err)
       (simp_all add: writeXml_collect [OF assms] cg Let_def fold_write_chunk writes_end_sink writes_write_chunk writes_text_catch)
qed

lemma fold_csv_write:
  "writes_of (calls (csv (fold (\<lambda>r st. st\<lparr>csv := sink_write (h r) (csv st)\<rparr>) rows x)))
     = writes_of (calls (csv x)) @ map h rows"
  by (induction rows arbitrary: x) (simp_all add: writes_sink_write)

lemma writeCsv_collect:
  assumes "\<not> headersSent (res x)"
  shows "writeCsv cols c x g =
     (case collect g of (bs, err, g') \<Rightarrow>
        let x2 = fold (\<lambda>r st. st\<lparr>csv := sink_write (csv_mapped cols r) (csv st)\<rparr>) (concat bs)
                   (x\<lparr>csv_columns := fold (\<lambda>c acc. obj_set (source c) (target c) acc) cols [],
                      res := text_headers ''text/csv'' ''export.csv'' c (res x)\<rparr>)
        in (None, (case err of None \<Rightarrow> x2\<lparr>csv := sink_end (csv x2)\<rparr> | Some e \<Rightarrow> csv_catch e x2), g'))"
proof -
  obtain bs err g' where cg: "collect g = (bs, err, g')" by (cases "collect g") auto
  show ?thesis
    using assms
    by (cases err)
       (simp_all add: writeCsv_def Let_def
          for_await_collect [of "\<lambda>b st. fold (\<lambda>r st. st\<lparr>csv := sink_write (csv_mapped cols r) (csv st)\<rparr>) b st"]
          fold_fold_concat cg)
qed

lemma writeCsv_writes:
  assumes "\<not> headersSent (res x)"
  shows "writes_of (calls (csv (fst (snd (writeCsv cols c x g)))))
     = writes_of (calls (csv x)) @ map (csv_mapped cols) (concat (fst (collect g)))"
proof -
  obtain bs err g' where cg: "collect g = (bs, err, g')" by (cases "collect g") auto
  show ?thesis
    by (cases err)
       (simp_all add: writeCsv_collect [OF assms] cg Let_def fold_csv_write csv_catch_def sink_end_def sink_destroy_def writes_of_append)
qed

lemma fold_csv_write_columns:
  "csv_columns (fold (\<lambda>r st. st\<lparr>csv := sink_write (h r) (csv st)\<rparr>) rows x) = csv_columns x"
  by (induction rows arbitrary: x) simp_all

lemma writeCsv_columns:
  assumes "\<not> headersSent (res x)"
  shows "csv_columns (fst (snd (writeCsv cols c x g))) = fold (\<lambda>c acc. obj_set (source c) (target c) acc) cols []"
proof -
  obtain bs err g' where cg: "collect g = (bs, err, g')" by (cases "collect g") auto
  show ?thesis
    by (cases err)
       (simp_all add: writeCsv_collect [OF assms] cg Let_def fold_csv_write_columns csv_catch_def)
qed

lemma concat_map_concat: "concat (map (\<lambda>b. concat (map h b)) bs) = concat (map h (concat bs))"
  by (induction bs) simp_all

lemma json_text:
  assumes "\<not> headersSent (res x)" and "calls (sink x) = []" and "fst (snd (collect g)) = None"
  shows "sink_text (fst (snd (writeJson cols c x g))) = json_document cols (concat (fst (collect g)))"
  using assms by (simp add: sink_text_def writeJson_writes json_document_chunks)

lemma xml_text:
  assumes "\<not> headersSent (res x)" and "calls (sink x) = []" and "fst (snd (collect g)) = None"
  shows "sink_text (fst (snd (writeXml cols c x g))) = xml_document cols (concat (fst (collect g)))"
proof -
  have "concat (map (xml_chunk cols) bs) = concat (map (xml_record cols) (concat bs))" for bs
    by (induction bs) (simp_all add: xml_chunk_records)
  then show ?thesis
    using assms by (simp add: sink_text_def writeXml_writes xml_document_def)
qed

lemma takeWhile_nonempty: "[] \<notin> set bs \<Longrightarrow> takeWhile (\<lambda>b. b \<noteq> []) bs = bs"
  by (induction bs) auto

lemma batches_concat: "0 < n \<Longrightarrow> concat (batches n xs) = xs"
proof (induction n xs rule: batches.induct)
  case (1 n xs)
  show ?case
  proof (cases "xs = []")
    case True
    then show ?thesis by (simp add: batches.simps [of n "[]"])
  next
    case False
    then show ?thesis using "1.IH" "1.prems" by (simp add: batches.simps [of n xs])
  qed
qed

lemma batches_nonempty: "[] \<notin> set (batches n xs)"
proof (induction n xs rule: batches.induct)
  case (1 n xs)
  show ?case
  proof (cases "n = 0 \<or> xs = []")
    case True
    then show ?thesis by (simp add: batches.simps [of n xs])
  next
    case False
    then show ?thesis using "1.IH" by (simp add: batches.simps [of n xs])
  qed
qed


lemma paced_append: "paced cs \<Longrightarrow> paced ds \<Longrightarrow> paced (cs @ ds)"
  by (induction cs rule: paced.induct) (auto split: list.splits sink_call.splits if_splits)

lemma paced_sink_write: "paced (calls s) \<Longrightarrow> paced (calls (sink_write chunk s))"
  by (auto simp add: sink_write_def intro!: paced_append split: list.splits)

lemma paced_write_chunk: "paced (calls (sink x)) \<Longrightarrow> paced (calls (sink (write_chunk c chunk x)))"
  by (simp add: write_chunk_def paced_sink_write)

lemma paced_end_sink: "paced (calls (sink x)) \<Longrightarrow> paced (calls (sink (end_sink c x)))"
  by (simp add: end_sink_def sink_end_def paced_append)

lemma paced_text_catch: "paced (calls (sink x)) \<Longrightarrow> paced (calls (sink (text_catch e x)))"
  by (simp add: text_catch_def sink_destroy_def paced_append Let_def)

lemma awaits_performed: "awaits (performed k cs) \<le> Suc k"
  by (induction k cs rule: performed.induct) (auto split: nat.splits)

lemma pending_performed: "paced cs \<Longrightarrow> pending_writes (performed k cs) \<le> awaits (performed k cs)"
proof (induction cs arbitrary: k rule: paced.induct)
  case (2 c ok cs)
  show ?case
  proof (cases ok)
    case True
    then show ?thesis using 2 by simp
  next
    case False
    then obtain cs' where cs: "cs = AwaitDrain # cs'" and p: "paced cs'"
      using "2.prems" by (auto split: list.splits sink_call.splits)
    show ?thesis
      using "2.IH"(2) [OF False cs refl p] False cs by (auto split: nat.splits)
  qed
qed (auto split: nat.splits simp add: le_SucI)

lemma paced_pending_bound: "paced cs \<Longrightarrow> pending_writes (performed k cs) \<le> Suc k"
  using pending_performed [of cs k] awaits_performed [of k cs] by simp

lemma performed_all: "awaits cs \<le> k \<Longrightarrow> performed k cs = cs"
  by (induction k cs rule: performed.induct) (auto split: nat.splits)

lemma performed_prefix: "prefix (performed k cs) cs"
  by (induction k cs rule: performed.induct) (auto split: nat.splits)

lemma writes_of_prefix: "prefix as bs \<Longrightarrow> prefix (writes_of as) (writes_of bs)"
  by (auto simp add: prefix_def writes_of_append)

lemma fold_json_row_paced:
  "paced (calls (sink x)) \<Longrightarrow> paced (calls (sink (fst (fold (json_row cols c) rows (x, f)))))"
  by (induction rows arbitrary: x f) (simp_all add: json_row_def paced_write_chunk)

lemma fold_write_chunk_paced:
  "paced (calls (sink x)) \<Longrightarrow> paced (calls (sink (fold (\<lambda>b st. write_chunk c (h b) st) bs x)))"
  by (induction bs arbitrary: x) (simp_all add: paced_write_chunk)

lemma fold_csv_write_paced:
  "paced (calls (csv x)) \<Longrightarrow> paced (calls (csv (fold (\<lambda>r st. st\<lparr>csv := sink_write (h r) (csv st)\<rparr>) rows x)))"
  by (induction rows arbitrary: x) (simp_all add: paced_sink_write)

lemma writeJson_paced:
  assumes "\<not> headersSent (res x)" and "paced (calls (sink x))"
  shows "paced (calls (sink (fst (snd (writeJson cols c x g)))))"
proof -
  obtain bs err g' where cg: "collect g = (bs, err, g')" by (cases "collect g") auto
  have "paced (calls (sink (write_chunk c ''['' (x\<lparr>res := text_headers ''application/json'' ''export.json'' c (res x)\<rparr>))))"
    using assms(2) by (simp add: paced_write_chunk)
  then have "paced (calls (sink (fst (fold (json_row cols c) (concat bs)
      (write_chunk c ''['' (x\<lparr>res := text_headers ''application/json'' ''export.json'' c (res x)\<rparr>), True)))))"
    by (rule fold_json_row_paced)
  then show ?thesis
    by (cases err) (simp_all add: writeJson_collect [OF assms(1)] cg Let_def paced_end_sink paced_write_chunk paced_text_catch)
qed

lemma writeXml_paced:
  assumes "\<not> headersSent (res x)" and "paced (calls (sink x))"
  shows "paced (calls (sink (fst (snd (writeXml cols c x g)))))"
proof -
  obtain bs err g' where cg: "collect g = (bs, err, g')" by (cases "collect g") auto
  have "paced (calls (sink (write_chunk c xml_prolog (x\<lparr>res := text_headers ''application/xml'' ''export.xml'' c (res x)\<rparr>))))"
    using assms(2) by (simp add: paced_write_chunk)
  then have "paced (calls (sink (fold (\<lambda>b st. write_chunk c (xml_chunk cols b) st) bs
      (write_chunk c xml_prolog (x\<lparr>res := text_headers ''application/xml'' ''export.xml'' c (res x)\<rparr>)))))"
    by (rule fold_write_chunk_paced)
  then show ?thesis
    by (cases err) (simp_all add: writeXml_collect [OF assms(1)] cg Let_def paced_end_sink paced_write_chunk paced_text_catch)
qed

lemma writeCsv_paced:
  assumes "\<not> headersSent (res x)" and "paced (calls (csv x))"
  shows "paced (calls (csv (fst (snd (writeCsv cols c x g)))))"
proof -
  obtain bs err g' where cg: "collect g = (bs, err, g')" by (cases "collect g") auto
  have "paced (calls (csv (fold (\<lambda>r st. st\<lparr>csv := sink_write (csv_mapped cols r) (csv st)\<rparr>) (concat bs)
                   (x\<lparr>csv_columns := fold (\<lambda>c acc. obj_set (source c) (target c) acc) cols [],
                      res := text_headers ''text/csv'' ''export.csv'' c (res x)\<rparr>))))"
    by (rule fold_csv_write_paced) (simp add: assms(2))
  then show ?thesis
    by (cases err) (simp_all add: writeCsv_collect [OF assms(1)] cg Let_def csv_catch_def sink_end_def sink_destroy_def paced_append)
qed


lemma collect_partition:
  "[] \<notin> set bs \<Longrightarrow> fst (collect (streamRows (serving bs) q n m)) = bs
     \<and> fst (snd (collect (streamRows (serving bs) q n m))) = None"
  using collect_serving [of bs q n m] by (simp add: takeWhile_nonempty)

text \<open>
  C5. Take two partitions \<open>bs\<close> and \<open>bs'\<close> of one sequence of rows into non-empty
  batches, each read through \<open>streamRows\<close> into a text encoder on a fresh response
  (the two runs may be throttled differently). The array-of-objects encoder hands the
  sink the same bytes in both runs, namely the document of the rows in their order,
  each once; so does the markup-tree encoder; and the delimited-text encoder writes
  the same objects to the \<^verbatim>\<open>csv-stringify\<close> stream, one per row in order, so that
  whatever text \<open>render\<close> the library makes of its column option and the objects
  written, that text is the same in both runs.
\<close>

theorem batch_partition_independence:
  assumes "[] \<notin> set bs" and "[] \<notin> set bs'" and "concat bs = concat bs'"
    and "\<not> headersSent (res x)" and "calls (sink x) = []" and "calls (csv x) = []"
    and "\<not> headersSent (res x')" and "calls (sink x') = []" and "calls (csv x') = []"
  shows "sink_text (fst (snd (writeJson cols c x (streamRows (serving bs) q n m)))) = json_document cols (concat bs)
     \<and> sink_text (fst (snd (writeJson cols c x' (streamRows (serving bs') q n' m')))) = json_document cols (concat bs)
     \<and> sink_text (fst (snd (writeXml cols c x (streamRows (serving bs) q n m)))) = xml_document cols (concat bs)
     \<and> sink_text (fst (snd (writeXml cols c x' (streamRows (serving bs') q n' m')))) = xml_document cols (concat bs)
     \<and> writes_of (calls (csv (fst (snd (writeCsv cols c x (streamRows (serving bs) q n m))))))
         = map (csv_mapped cols) (concat bs)
     \<and> writes_of (calls (csv (fst (snd (writeCsv cols c x' (streamRows (serving bs') q n' m'))))))
         = map (csv_mapped cols) (concat bs)
     \<and> render (csv_columns (fst (snd (writeCsv cols c x (streamRows (serving bs) q n m)))))
               (writes_of (calls (csv (fst (snd (writeCsv cols c x (streamRows (serving bs) q n m)))))))
         = render (csv_columns (fst (snd (writeCsv cols c x' (streamRows (serving bs') q n' m')))))
               (writes_of (calls (csv (fst (snd (writeCsv cols c x' (streamRows (serving bs') q n' m')))))))"
proof -
  note p = collect_partition [OF assms(1), of q n m]
  note p' = collect_partition [OF assms(2), of q n' m']
  have j: "sink_text (fst (snd (writeJson cols c x (streamRows (serving bs) q n m)))) = json_document cols (concat bs)"
    using json_text [OF assms(4) assms(5), of "streamRows (serving bs) q n m" cols c] p by simp
  have j': "sink_text (fst (snd (writeJson cols c x' (streamRows (serving bs') q n' m')))) = json_document cols (concat bs)"
    using json_text [OF assms(7) assms(8), of "streamRows (serving bs') q n' m'" cols c] p' assms(3) by simp
  have k: "sink_text (fst (snd (writeXml cols c x (streamRows (serving bs) q n m)))) = xml_document cols (concat bs)"
    using xml_text [OF assms(4) assms(5), of "streamRows (serving bs) q n m" cols c] p by simp
  have k': "sink_text (fst (snd (writeXml cols c x' (streamRows (serving bs') q n' m')))) = xml_document cols (concat bs)"
    using xml_text [OF assms(7) assms(8), of "streamRows (serving bs') q n' m'" cols c] p' assms(3) by simp
  have l: "writes_of (calls (csv (fst (snd (writeCsv cols c x (streamRows (serving bs) q n m))))))
         = map (csv_mapped cols) (concat bs)"
    using p by (simp add: writeCsv_writes [OF assms(4)] assms(6))
  have l': "writes_of (calls (csv (fst (snd (writeCsv cols c x' (streamRows (serving bs') q n' m'))))))
         = map (csv_mapped cols) (concat bs)"
    using p' assms(3) by (simp add: writeCsv_writes [OF assms(7)] assms(9))
  have r: "render (csv_columns (fst (snd (writeCsv cols c x (streamRows (serving bs) q n m)))))
               (writes_of (calls (csv (fst (snd (writeCsv cols c x (streamRows (serving bs) q n m)))))))
         = render (csv_columns (fst (snd (writeCsv cols c x' (streamRows (serving bs') q n' m')))))
               (writes_of (calls (csv (fst (snd (writeCsv cols c x' (streamRows (serving bs') q n' m')))))))"
    by (simp only: l l' writeCsv_columns [OF assms(4)] writeCsv_columns [OF assms(7)])
  from j j' k k' l l' r show ?thesis by blast
qed

theorem batch_partition_independence_witness:
  "[] \<notin> set (batches 1 [row1, row2]) \<and> [] \<notin> set (batches 7 [row1, row2])
   \<and> concat (batches 1 [row1, row2]) = concat (batches 7 [row1, row2])
   \<and> batches 1 [row1, row2] = [[row1], [row2]] \<and> batches 7 [row1, row2] = [[row1, row2]]
   \<and> sink_text (fst (snd (writeJson sample_columns False (fresh_io []) (streamRows (serving (batches 1 [row1, row2])) ''SELECT'' None None))))
     = sink_text (fst (snd (writeJson sample_columns False (fresh_io [False]) (streamRows (serving (batches 7 [row1, row2])) ''SELECT'' None None))))
   \<and> sink_text (fst (snd (writeXml sample_columns False (fresh_io []) (streamRows (serving (batches 1 [row1, row2])) ''SELECT'' None None))))
     = sink_text (fst (snd (writeXml sample_columns False (fresh_io [False]) (streamRows (serving (batches 7 [row1, row2])) ''SELECT'' None None))))
   \<and> writes_of (calls (csv (fst (snd (writeCsv sample_columns False (fresh_io []) (streamRows (serving (batches 1 [row1, row2])) ''SELECT'' None None))))))
     = [[(''id'', Str ''1''), (''metadata'', Obj [(''a'', Num 1)])],
        [(''id'', Str ''2''), (''metadata'', Obj [(''tags'', Arr [Str ''x'', Str ''y''])])]]"
proof -
  have b1: "batches 1 [row1, row2] = [[row1], [row2]]"
    by (simp add: batches.simps)
  have b7: "batches 7 [row1, row2] = [[row1, row2]]"
    by (simp add: batches.simps)
  have ne: "[] \<notin> set (batches 1 [row1, row2])" "[] \<notin> set (batches 7 [row1, row2])"
    and eq: "concat (batches 1 [row1, row2]) = concat (batches 7 [row1, row2])"
    using b1 b7 by simp_all
  have f: "\<not> headersSent (res (fresh_io []))" "calls (sink (fresh_io [])) = []" "calls (csv (fresh_io [])) = []"
     "\<not> headersSent (res (fresh_io [False]))" "calls (sink (fresh_io [False])) = []" "calls (csv (fresh_io [False])) = []"
    by (simp_all add: fresh_io_def fresh_response_def)
  note t = batch_partition_independence [OF ne eq f, of sample_columns False "''SELECT''" None None None None "\<lambda>opts objs. objs"]
  have c: "map (csv_mapped sample_columns) (concat (batches 1 [row1, row2]))
     = [[(''id'', Str ''1''), (''metadata'', Obj [(''a'', Num 1)])],
        [(''id'', Str ''2''), (''metadata'', Obj [(''tags'', Arr [Str ''x'', Str ''y''])])]]"
    using b1 by (simp add: csv_mapped_def sample_columns_def row1_def row2_def obj_set_def get_prop_def)
  from t c b1 b7 ne eq show ?thesis by simp
qed

text \<open>
  C6. In every run of a text encoder on a fresh response, whatever the stream answers:
  the record of calls is paced (a write answered \<open>False\<close> is directly followed by the
  wait for \<^verbatim>\<open>drain\<close>); when the stream has emitted \<^verbatim>\<open>drain\<close> \<open>k\<close> times, at most
  \<open>k + 1\<close> writes have been answered \<open>False\<close>, so at most one is not yet acknowledged,
  and what has been written is a prefix of what the unthrottled run writes; and once
  every wait has been answered, the chunks written are exactly those of the unthrottled
  run.
\<close>

theorem backpressure_text_encoders:
  assumes "\<not> headersSent (res x)" and "calls (sink x) = []" and "calls (csv x) = []"
  shows "(let cs = calls (sink (fst (snd (writeJson cols c x g))));
              free = writes_of (calls (sink (fst (snd (writeJson cols c (x\<lparr>sink := \<lparr>ready = [], calls = []\<rparr>\<rparr>) g)))))
          in paced cs \<and> pending_writes (performed k cs) \<le> Suc k \<and> prefix (writes_of (performed k cs)) free
             \<and> (awaits cs \<le> k \<longrightarrow> writes_of (performed k cs) = free))
       \<and> (let cs = calls (sink (fst (snd (writeXml cols c x g))));
              free = writes_of (calls (sink (fst (snd (writeXml cols c (x\<lparr>sink := \<lparr>ready = [], calls = []\<rparr>\<rparr>) g)))))
          in paced cs \<and> pending_writes (performed k cs) \<le> Suc k \<and> prefix (writes_of (performed k cs)) free
             \<and> (awaits cs \<le> k \<longrightarrow> writes_of (performed k cs) = free))
       \<and> (let cs = calls (csv (fst (snd (writeCsv cols c x g))));
              free = writes_of (calls (csv (fst (snd (writeCsv cols c (x\<lparr>csv := \<lparr>ready = [], calls = []\<rparr>\<rparr>) g)))))
          in paced cs \<and> pending_writes (performed k cs) \<le> Suc k \<and> prefix (writes_of (performed k cs)) free
             \<and> (awaits cs \<le> k \<longrightarrow> writes_of (performed k cs) = free))"
proof -
  have shape: "paced cs \<Longrightarrow> writes_of cs = free \<Longrightarrow>
      paced cs \<and> pending_writes (performed k cs) \<le> Suc k \<and> prefix (writes_of (performed k cs)) free
      \<and> (awaits cs \<le> k \<longrightarrow> writes_of (performed k cs) = free)" for cs :: "'z sink_call list" and free
    using paced_pending_bound [of cs k] writes_of_prefix [OF performed_prefix [of k cs]] performed_all [of cs k]
    by auto
  have pj: "paced (calls (sink (fst (snd (writeJson cols c x g)))))"
    by (rule writeJson_paced) (simp_all add: assms)
  have wj: "writes_of (calls (sink (fst (snd (writeJson cols c x g)))))
      = writes_of (calls (sink (fst (snd (writeJson cols c (x\<lparr>sink := \<lparr>ready = [], calls = []\<rparr>\<rparr>) g)))))"
    using assms by (simp add: writeJson_writes)
  have px: "paced (calls (sink (fst (snd (writeXml cols c x g)))))"
    by (rule writeXml_paced) (simp_all add: assms)
  have wx: "writes_of (calls (sink (fst (snd (writeXml cols c x g)))))
      = writes_of (calls (sink (fst (snd (writeXml cols c (x\<lparr>sink := \<lparr>ready = [], calls = []\<rparr>\<rparr>) g)))))"
    using assms by (simp add: writeXml_writes)
  have pc: "paced (calls (csv (fst (snd (writeCsv cols c x g)))))"
    by (rule writeCsv_paced) (simp_all add: assms)
  have wc: "writes_of (calls (csv (fst (snd (writeCsv cols c x g)))))
      = writes_of (calls (csv (fst (snd (writeCsv cols c (x\<lparr>csv := \<lparr>ready = [], calls = []\<rparr>\<rparr>) g)))))"
    using assms by (simp add: writeCsv_writes)
  show ?thesis
    unfolding Let_def using shape [OF pj wj] shape [OF px wx] shape [OF pc wc] by blast
qed

theorem backpressure_text_encoders_witness:
  "\<not> headersSent (res (fresh_io [False, True, False]))
   \<and> (let cs = calls (sink (fst (snd (writeJson sample_columns False (fresh_io [False, True, False])
                  (streamRows db_two_rows ''SELECT'' None None)))));
           free = writes_of (calls (sink (fst (snd (writeJson sample_columns False (fresh_io [])
                  (streamRows db_two_rows ''SELECT'' None None))))))
       in performed 0 cs = [Write ''['' False, AwaitDrain]
          \<and> awaits cs = 2 \<and> length free = 4
          \<and> length (writes_of (performed 1 cs)) = 3 \<and> pending_writes (performed 1 cs) = 2
          \<and> writes_of (performed 2 cs) = free)"
  using backpressure_text_encoders [of "fresh_io [False, True, False]" sample_columns False "streamRows db_two_rows ''SELECT'' None None" 2]
  by (simp add: model_defs for_await.simps gen_defs sample_defs own_entries_def array_index_def char_class_defs Let_def)

subsection \<open>The array-of-objects document is JSON\<close>










lemma digit_char_zero: "d < 10 \<Longrightarrow> digit_char d = CHR ''0'' \<Longrightarrow> d = 0"
proof -
  assume "d < 10" and z: "digit_char d = CHR ''0''"
  then have "d \<in> {0, 1, 2, 3, 4, 5, 6, 7, 8, 9}" by simp arith
  then show ?thesis using z by (auto simp add: digit_char_def)
qed






























subsection \<open>General behaviour of the batch source and of the download operation\<close>

lemma gen_next_cases:
  assumes "connect_error (db g) = None \<and> phase g = NotStarted \<or> phase g = AtYield"
    and "count_list (events g) Release = 0"
  shows "(case gen_next g of
            (Yield b, g') \<Rightarrow> phase g' = AtYield \<and> count_list (events g') Release = 0
          | (Return, g') \<Rightarrow> count_list (events g') Release = 1 \<and> CloseCursor \<in> set (events g')
          | (Throw e, g') \<Rightarrow> count_list (events g') Release = 1)"
  using assms
  by (cases "phase g")
     (auto simp add: gen_next_def read_once_def finish_reading_def log_db_def Let_def
           split: option.splits list.splits read_result.splits)

lemma gen_return_releases:
  "phase g = AtYield \<Longrightarrow> count_list (events g) Release = 0 \<Longrightarrow> count_list (events (gen_return g)) Release = 1"
  by (simp add: gen_return_def log_db_def)

lemma for_await_releases_once:
  "connect_error (db g) = None \<and> phase g = NotStarted \<or> phase g = AtYield \<Longrightarrow>
   count_list (events g) Release = 0 \<Longrightarrow>
   count_list (events (snd (snd (for_await body g s)))) Release = 1
   \<and> (fst (for_await body g s) = None \<longrightarrow> CloseCursor \<in> set (events (snd (snd (for_await body g s)))))"
proof (induction body g s rule: for_await.induct)
  case (1 body g s)
  note gc = gen_next_cases [OF "1.prems"]
  show ?case
  proof (cases "gen_next g")
    case (Pair r g')
    show ?thesis
    proof (cases r)
      case (Yield batch)
      have g': "phase g' = AtYield" "count_list (events g') Release = 0"
        using gc by (simp_all add: Pair Yield)
      show ?thesis
      proof (cases "body s batch")
        case (Pair err s')
        show ?thesis
        proof (cases err)
          case None
          have "count_list (events (snd (snd (for_await body g' s')))) Release = 1
                \<and> (fst (for_await body g' s') = None \<longrightarrow> CloseCursor \<in> set (events (snd (snd (for_await body g' s')))))"
            using "1.IH" [OF \<open>gen_next g = (r, g')\<close> [symmetric] Yield Pair [symmetric] None] g' by simp
          then show ?thesis
            by (simp add: for_await.simps [of body g s] \<open>gen_next g = (r, g')\<close> Yield Pair None)
        next
          case (Some e)
          then show ?thesis
            using gen_return_releases [OF g']
            by (simp add: for_await.simps [of body g s] \<open>gen_next g = (r, g')\<close> Yield Pair)
        qed
      qed
    next
      case Return
      then show ?thesis using gc by (simp add: for_await.simps [of body g s] Pair)
    next
      case (Throw e)
      then show ?thesis using gc by (simp add: for_await.simps [of body g s] Pair)
    qed
  qed
qed

text \<open>
  The release of the client, in general. A loop over \<open>streamRows\<close> whose pool hands out
  a connection releases it exactly once, however the loop ends (exhaustion, a failing
  read, a failing close, or a body that throws), and a loop that ends without error
  has closed the cursor. When the pool hands out no connection nothing is acquired or
  released and the loop ends with the pool's error.
\<close>

theorem streamRows_releases_once:
  "(connect_error d = None \<longrightarrow>
      count_list (events (snd (snd (for_await body (streamRows d q n m) s)))) Release = 1
      \<and> (fst (for_await body (streamRows d q n m) s) = None \<longrightarrow>
           CloseCursor \<in> set (events (snd (snd (for_await body (streamRows d q n m) s))))))
   \<and> (connect_error d \<noteq> None \<longrightarrow>
      events (snd (snd (for_await body (streamRows d q n m) s))) = []
      \<and> fst (for_await body (streamRows d q n m) s) = connect_error d)"
proof -
  have a: "connect_error d = None \<Longrightarrow>
      count_list (events (snd (snd (for_await body (streamRows d q n m) s)))) Release = 1
      \<and> (fst (for_await body (streamRows d q n m) s) = None \<longrightarrow>
           CloseCursor \<in> set (events (snd (snd (for_await body (streamRows d q n m) s)))))"
    by (rule for_await_releases_once) (simp_all add: streamRows_def)
  have b: "connect_error d \<noteq> None \<Longrightarrow>
      events (snd (snd (for_await body (streamRows d q n m) s))) = []
      \<and> fst (for_await body (streamRows d q n m) s) = connect_error d"
  proof -
    assume "connect_error d \<noteq> None"
    then obtain e where e: "connect_error d = Some e" by auto
    have "gen_next (streamRows d q n m) = (Throw e, (streamRows d q n m)\<lparr>phase := Finished\<rparr>)"
      by (simp add: gen_next_def streamRows_def e)
    then show ?thesis
      by (subst (1 2) for_await.simps) (simp add: e streamRows_def)
  qed
  from a b show ?thesis by blast
qed

theorem streamRows_releases_once_witness:
  "connect_error db_failing = None
   \<and> count_list (events (snd (snd (for_await (\<lambda>s b. (None, s @ b)) (streamRows db_failing ''SELECT'' None None) [])))) Release = 1
   \<and> connect_error db_unreachable \<noteq> None
   \<and> events (snd (snd (for_await (\<lambda>s b. (None, s @ b)) (streamRows db_unreachable ''SELECT'' None None) []))) = []"
  using streamRows_releases_once [of db_failing "\<lambda>s b. (None, s @ b)" "''SELECT''" None None "[]"]
    streamRows_releases_once [of db_unreachable "\<lambda>s b. (None, s @ b)" "''SELECT''" None None "[]"]
  by (simp add: db_failing_def db_unreachable_def)


lemma payload_write_chunk: "res_payload (write_chunk c chunk x) = res_payload x"
  by (simp add: res_payload_def write_chunk_def)

lemma payload_end_sink: "res_payload (end_sink c x) = res_payload x"
  by (simp add: res_payload_def end_sink_def res_end_def)

lemma payload_text_catch: "res_payload (text_catch e x) = res_payload x"
  by (simp add: res_payload_def text_catch_def res_end_def Let_def)

lemma payload_text_headers: "res_payload (x\<lparr>res := text_headers ct fn c (res x)\<rparr>) = res_payload x"
  by (simp add: res_payload_def text_headers_def setHeader_def Let_def)

lemma payload_fold_json_row: "res_payload (fst (fold (json_row cols c) rows (x, f))) = res_payload x"
  by (induction rows arbitrary: x f) (simp_all add: json_row_def payload_write_chunk)

lemma payload_fold_write_chunk: "res_payload (fold (\<lambda>b st. write_chunk c (h b) st) bs x) = res_payload x"
  by (induction bs arbitrary: x) (simp_all add: payload_write_chunk)

lemma payload_fold_csv: "res_payload (fold (\<lambda>r st. st\<lparr>csv := sink_write (h r) (csv st)\<rparr>) rows x) = res_payload x"
  by (induction rows arbitrary: x) (simp_all add: res_payload_def)

lemma writeJson_returns:
  assumes "\<not> headersSent (res x)"
  shows "fst (writeJson cols c x g) = None \<and> res_payload (fst (snd (writeJson cols c x g))) = res_payload x"
proof -
  obtain bs err g' where cg: "collect g = (bs, err, g')" by (cases "collect g") auto
  show ?thesis
    by (cases err)
       (simp_all add: writeJson_collect [OF assms] cg Let_def payload_end_sink payload_write_chunk payload_text_catch
          payload_fold_json_row payload_text_headers)
qed

lemma writeXml_returns:
  assumes "\<not> headersSent (res x)"
  shows "fst (writeXml cols c x g) = None \<and> res_payload (fst (snd (writeXml cols c x g))) = res_payload x"
proof -
  obtain bs err g' where cg: "collect g = (bs, err, g')" by (cases "collect g") auto
  show ?thesis
    by (cases err)
       (simp_all add: writeXml_collect [OF assms] cg Let_def payload_end_sink payload_write_chunk payload_text_catch
          payload_fold_write_chunk payload_text_headers)
qed

lemma writeCsv_returns:
  assumes "\<not> headersSent (res x)"
  shows "fst (writeCsv cols c x g) = None \<and> res_payload (fst (snd (writeCsv cols c x g))) = res_payload x"
proof -
  obtain bs err g' where cg: "collect g = (bs, err, g')" by (cases "collect g") auto
  have h: "res_payload (x\<lparr>csv_columns := cc, res := text_headers ct fn c (res x)\<rparr>) = res_payload x" for cc ct fn
    by (simp add: res_payload_def text_headers_def setHeader_def Let_def)
  have e: "res_payload (z\<lparr>csv := q\<rparr>) = res_payload z" for z q
    by (simp add: res_payload_def)
  have k: "res_payload (csv_catch er z) = res_payload z" for er z
    by (simp add: res_payload_def csv_catch_def res_end_def Let_def)
  show ?thesis
    by (cases err)
       (simp_all add: writeCsv_collect [OF assms] cg Let_def payload_fold_csv h e k)
qed

lemma parquet_rows_payload: "res_payload (snd (parquet_rows env cols x rs)) = res_payload x"
  by (induction rs arbitrary: x) (simp_all add: res_payload_def split: sum.splits option.splits)

lemma parquet_try_payload:
  "(case parquet_try env cols x g of
      Returned (err, x1, g1) \<Rightarrow> res_payload x1 = res_payload x
    | Pending (err, x1, g1) \<Rightarrow> replay env = ReplayStalls \<and> res_payload x1 = res_payload x)"
proof -
  consider (early) "mkdir_error env \<noteq> None \<or> schema_error env \<noteq> None \<or> open_error env \<noteq> None"
    | (opened) "mkdir_error env = None" "schema_error env = None" "open_error env = None"
    by auto
  then show ?thesis
  proof cases
    case early
    then show ?thesis
      by (cases "mkdir_error env"; cases "schema_error env"; cases "open_error env")
         (simp_all add: parquet_try_def Let_def res_payload_def)
  next
    case opened
    let ?x2 = "x\<lparr>fs := (fs x)\<lparr>fs_calls := fs_calls (fs x) @ [MkdirSync (tmp_dir env), OpenFile (tmpFile env)]\<rparr>,
                 schema := buildSchema cols\<rparr>"
    obtain e x3 g' where fa: "for_await (parquet_rows env cols) g ?x2 = (e, x3, g')"
      by (cases "for_await (parquet_rows env cols) g ?x2") auto
    have "res_payload (fst (snd (for_await (parquet_rows env cols) g ?x2))) = res_payload ?x2"
      by (rule for_await_invariant [where P = "\<lambda>z. res_payload z = res_payload ?x2"])
         (simp_all add: parquet_rows_payload)
    then have u: "res_payload x3 = res_payload x" by (simp add: fa res_payload_def)
    show ?thesis
      using u by (simp add: parquet_try_def opened Let_def fa res_payload_def res_end_def
          split: option.splits replay_result.splits)
  qed
qed

lemma writeParquet_returns:
  assumes "\<not> headersSent (res x)"
  shows "(case writeParquet env cols x g of
            Returned (thrown, x', g') \<Rightarrow> thrown = None \<and> res_payload x' = res_payload x
          | Pending (thrown, x', g') \<Rightarrow> replay env = ReplayStalls \<and> res_payload x' = res_payload x)"
proof -
  let ?x0 = "x\<lparr>res := parquet_headers (res x)\<rparr>"
  have hp: "res_payload ?x0 = res_payload x"
    by (simp add: res_payload_def parquet_headers_def setHeader_def)
  note t = parquet_try_payload [where env = env and cols = cols and x = ?x0 and g = g]
  show ?thesis
  proof (cases "parquet_try env cols ?x0 g")
    case (Returned r)
    obtain err x1 g1 where r: "r = (err, x1, g1)" by (cases r) auto
    have u: "res_payload x1 = res_payload x" using t hp by (simp add: Returned r)
    show ?thesis
      using assms u by (simp add: writeParquet_def Returned r Let_def res_payload_def res_end_def split: option.splits)
  next
    case (Pending w)
    obtain err x1 g1 where w: "w = (err, x1, g1)" by (cases w) auto
    have u: "replay env = ReplayStalls \<and> res_payload x1 = res_payload x" using t hp by (simp add: Pending w)
    show ?thesis
      using assms u by (simp add: writeParquet_def Pending w)
  qed
qed

text \<open>
  The download operation, in general. For a stored job of one of the four formats
  with allow-listed columns, on a response whose headers are not out, and whatever the
  database and the file system do: when the handler returns, its promise is not
  rejected, the job is recorded \<^verbatim>\<open>complete\<close>, and the encoders have left the status code
  and the JSON payload of the response as they were; the handler's \<^verbatim>\<open>catch\<close> block is
  not reached. With the text encoders given every \<^verbatim>\<open>drain\<close> they wait for, the handler
  stays suspended only with the columnar encoder whose replay stalls; the job then
  keeps the status it had.
\<close>

theorem download_records_complete_when_it_returns:
  assumes "getJob st i = Some j" and "buildSelectClause (columns j) = Inr q"
    and "format j \<in> {''csv'', ''json'', ''xml'', ''parquet''}" and "\<not> headersSent (res x)"
  shows "(case download env d es i st x of
            Returned (rejected, st', x', g) \<Rightarrow>
              rejected = None
              \<and> st' = updateJobStatus (exportId j) ''complete'' st
              \<and> statusCode (res x') = statusCode (res x)
              \<and> json_body (res x') = json_body (res x)
          | Pending (rejected, st', x', g) \<Rightarrow>
              format j = ''parquet'' \<and> replay env = ReplayStalls
              \<and> st' = st
              \<and> statusCode (res x') = statusCode (res x)
              \<and> json_body (res x') = json_body (res x))"
proof -
  let ?g = "streamRows d (select_sql q) None es"
  let ?c = "compression j = Some ''gzip''"
  note w = writeCsv_returns [OF assms(4), of "columns j" ?c ?g] writeJson_returns [OF assms(4), of "columns j" ?c ?g]
    writeXml_returns [OF assms(4), of "columns j" ?c ?g] writeParquet_returns [OF assms(4), where env = env and cols = "columns j" and g = ?g]
  consider "format j = ''csv''" | "format j = ''json''" | "format j = ''xml''" | "format j = ''parquet''"
    using assms(3) by auto
  then show ?thesis
  proof cases
    case 1
    obtain a b c where r: "writeCsv (columns j) ?c x ?g = (a, b, c)" by (cases "writeCsv (columns j) ?c x ?g") auto
    show ?thesis using w(1) by (simp add: download_def assms(1,2) 1 r res_payload_def)
  next
    case 2
    obtain a b c where r: "writeJson (columns j) ?c x ?g = (a, b, c)" by (cases "writeJson (columns j) ?c x ?g") auto
    show ?thesis using w(2) by (simp add: download_def assms(1,2) 2 r res_payload_def)
  next
    case 3
    obtain a b c where r: "writeXml (columns j) ?c x ?g = (a, b, c)" by (cases "writeXml (columns j) ?c x ?g") auto
    show ?thesis using w(3) by (simp add: download_def assms(1,2) 3 r res_payload_def)
  next
    case 4
    show ?thesis
    proof (cases "writeParquet env (columns j) x ?g")
      case (Returned r)
      obtain a b c where r: "r = (a, b, c)" by (cases r) auto
      show ?thesis using w(4) by (simp add: download_def assms(1,2) 4 Returned r res_payload_def)
    next
      case (Pending r)
      obtain a b c where r: "r = (a, b, c)" by (cases r) auto
      show ?thesis using w(4) by (simp add: download_def assms(1,2) 4 Pending r res_payload_def)
    qed
  qed
qed

theorem download_records_complete_when_it_returns_witness:
  "getJob [''j1'' \<mapsto> sample_job ''parquet''] ''j1'' = Some (sample_job ''parquet'')
   \<and> buildSelectClause (columns (sample_job ''parquet'')) = Inr (dq @ ''id'' @ dq @ '', '' @ dq @ ''metadata'' @ dq)
   \<and> \<not> headersSent (res (fresh_io []))
   \<and> (case download no_faults db_failing None ''j1'' [''j1'' \<mapsto> sample_job ''parquet''] (fresh_io []) of
        Returned (rejected, st', x', g) \<Rightarrow>
          rejected = None \<and> map_option status (st' ''j1'') = Some ''complete''
          \<and> statusCode (res x') = 200 \<and> json_body (res x') = None
          \<and> fs_calls (fs x') = [MkdirSync ''/tmp/parquet-export'', OpenFile (tmpFile no_faults), Unlink (tmpFile no_faults)]
      | Pending w \<Rightarrow> False)"
  using download_records_complete_when_it_returns [where st = "[''j1'' \<mapsto> sample_job ''parquet'']" and i = "''j1''"
      and j = "sample_job ''parquet''" and q = "dq @ ''id'' @ dq @ '', '' @ dq @ ''metadata'' @ dq" and x = "fresh_io []"
      and env = no_faults and d = db_failing and es = None]
  by (simp add: model_defs for_await.simps gen_defs sample_defs char_class_defs Let_def)

end
